theory Spec2Isabelle
  imports Complex_Main "HOL-Library.Product_Lexorder"
begin

section \<open>Python values used by the pin logger\<close>

text \<open>
  A Python \<open>str\<close> is a sequence of Unicode code points; a code point is a natural
  number. ASCII text is written \<open>lit ''...''\<close>. A \<open>bytes\<close> value is a list of
  numbers below 256.
\<close>

type_synonym codepoint = nat
type_synonym str = "codepoint list"
type_synonym bytes = "nat list"

abbreviation (input) lit :: "string \<Rightarrow> str" where
  "lit s \<equiv> map of_char s"

text \<open>
  The exceptions that the modelled code raises or lets through. \<open>ValueError\<close> is what
  \<open>parse_line\<close> and \<open>int\<close> raise (its message is never observed, so it is not kept);
  the others carry \<open>str(e)\<close>. \<open>OSError\<close> and \<open>SerialException\<close> come out of the file and
  serial libraries.
\<close>

datatype exn =
    ValueError
  | IndexError
  | RuntimeError str
  | OSError str
  | SerialException str

fun exn_str :: "exn \<Rightarrow> str" where
  "exn_str ValueError = []"
| "exn_str IndexError = []"
| "exn_str (RuntimeError m) = m"
| "exn_str (OSError m) = m"
| "exn_str (SerialException m) = m"

text \<open>An aware UTC \<open>datetime\<close>: its fields. The clock reading is an input of the model.\<close>

record datetime =
  year :: nat
  month :: nat
  day :: nat
  hour :: nat
  minute :: nat
  second :: nat
  microsecond :: nat

text \<open>The field ranges of a Python \<open>datetime\<close> (the length of the month is not needed).\<close>

definition valid_datetime :: "datetime \<Rightarrow> bool" where
  "valid_datetime t \<longleftrightarrow>
     1 \<le> year t \<and> year t \<le> 9999 \<and> 1 \<le> month t \<and> month t \<le> 12 \<and>
     1 \<le> day t \<and> day t \<le> 31 \<and> hour t < 24 \<and> minute t < 60 \<and> second t < 60 \<and>
     microsecond t < 1000000"

text \<open>
  The parts of the Python runtime that are tables or library code outside the repository
  are parameters of the model:
  \<^item> \<open>to_decimal\<close>: the Unicode database's decimal-digit value of a code point
    (\<open>Py_UNICODE_TODECIMAL\<close>), used by \<open>int\<close> on non-ASCII text;
  \<^item> \<open>utf8_replace\<close>: \<open>bytes.decode("utf-8", errors="replace")\<close>;
  \<^item> \<open>fromisoformat_utc\<close>: \<open>datetime.fromisoformat(s).astimezone(timezone.utc)\<close>, with
    \<open>None\<close> when it raises.
\<close>

record pyrt =
  to_decimal :: "codepoint \<Rightarrow> nat option"
  utf8_replace :: "bytes \<Rightarrow> str"
  fromisoformat_utc :: "str \<Rightarrow> datetime option"

subsection \<open>\<open>str.split(",")\<close>, \<open>str.strip()\<close>, \<open>int(str)\<close>\<close>

text \<open>\<open>str.isspace\<close> of one code point (what \<open>strip()\<close> removes).\<close>

definition py_isspace :: "codepoint \<Rightarrow> bool" where
  "py_isspace c \<longleftrightarrow>
     (9 \<le> c \<and> c \<le> 13) \<or> (28 \<le> c \<and> c \<le> 32) \<or> c = 133 \<or> c = 160 \<or> c = 5760 \<or>
     (8192 \<le> c \<and> c \<le> 8202) \<or> c = 8232 \<or> c = 8233 \<or> c = 8239 \<or> c = 8287 \<or> c = 12288"

text \<open>C's \<open>Py_ISSPACE\<close>, used inside \<open>int\<close> after the text has been made ASCII.\<close>

definition c_isspace :: "codepoint \<Rightarrow> bool" where
  "c_isspace c \<longleftrightarrow> (9 \<le> c \<and> c \<le> 13) \<or> c = 32"

definition strip :: "str \<Rightarrow> str" where
  "strip s = rev (dropWhile py_isspace (rev (dropWhile py_isspace s)))"

text \<open>\<open>s.split(sep)\<close> for a one-character separator: never returns the empty list.\<close>

fun split_on :: "codepoint \<Rightarrow> str \<Rightarrow> str list" where
  "split_on sep [] = [[]]"
| "split_on sep (c # cs) =
     (if c = sep then [] # split_on sep cs
      else (case split_on sep cs of [] \<Rightarrow> [[c]] | p # ps \<Rightarrow> (c # p) # ps))"

text \<open>
  \<open>int(s)\<close> in base 10. Non-ASCII text is first rewritten: Unicode spaces become a blank,
  Unicode decimal digits their ASCII digit, anything else \<open>?\<close>. Then: blanks, an optional
  sign, digits with single underscores between them, blanks, end of text. \<open>None\<close> is
  \<open>ValueError\<close>. (The interpreter's optional limit on the number of digits is not part of
  the model.)
\<close>

definition to_ascii :: "pyrt \<Rightarrow> str \<Rightarrow> str" where
  "to_ascii rt s =
     (if \<forall>c \<in> set s. c < 128 then s
      else map (\<lambda>c. if c < 127 then c
                     else if py_isspace c then 32
                     else (case to_decimal rt c of Some d \<Rightarrow> 48 + d | None \<Rightarrow> 63)) s)"

definition is_digit :: "codepoint \<Rightarrow> bool" where
  "is_digit c \<longleftrightarrow> 48 \<le> c \<and> c \<le> 57"

text \<open>
  The digit scan of \<open>long_from_non_binary_base\<close>: \<open>prev\<close> tells whether the previous
  character was an underscore. Returns the value and the unread rest, or \<open>None\<close> for a
  doubled or trailing underscore.
\<close>

fun scan_digits :: "bool \<Rightarrow> int \<Rightarrow> str \<Rightarrow> (int \<times> str) option" where
  "scan_digits prev acc [] = (if prev then None else Some (acc, []))"
| "scan_digits prev acc (c # cs) =
     (if c = 95 then (if prev then None else scan_digits True acc cs)
      else if is_digit c then scan_digits False (acc * 10 + int (c - 48)) cs
      else (if prev then None else Some (acc, c # cs)))"

definition long_from_string :: "str \<Rightarrow> int option" where
  "long_from_string s =
     (let s1 = dropWhile c_isspace s;
          sign = (case s1 of c # _ \<Rightarrow> (if c = 45 then - 1 else 1) | [] \<Rightarrow> (1::int));
          s2 = (case s1 of c # r \<Rightarrow> (if c = 43 \<or> c = 45 then r else s1) | [] \<Rightarrow> s1)
      in case s2 of
           [] \<Rightarrow> None
         | c # _ \<Rightarrow>
             if \<not> is_digit c then None
             else (case scan_digits False 0 s2 of
                     None \<Rightarrow> None
                   | Some (v, r) \<Rightarrow> if dropWhile c_isspace r = [] then Some (sign * v) else None))"

definition py_int :: "pyrt \<Rightarrow> str \<Rightarrow> int option" where
  "py_int rt s = long_from_string (to_ascii rt s)"

section \<open>Line codec: \<open>serial_reader.parse_line\<close>\<close>

text \<open>\<open>parts = [p.strip() for p in line.split(",") if p.strip() != ""]\<close>\<close>

definition parts :: "str \<Rightarrow> str list" where
  "parts line = [strip p. p \<leftarrow> split_on 44 line, strip p \<noteq> []]"

text \<open>
  The loop \<open>for i in range(0, len(parts), 2)\<close>, two tokens at a time, writing
  \<open>out[pin] = val\<close>. A single left-over token would raise \<open>IndexError\<close> at
  \<open>parts[i + 1]\<close>; the length check before the loop excludes it.
\<close>

fun pairs_loop :: "pyrt \<Rightarrow> str list \<Rightarrow> (int \<rightharpoonup> int) \<Rightarrow> exn + (int \<rightharpoonup> int)" where
  "pairs_loop rt [] out = Inr out"
| "pairs_loop rt [a] out =
     (case py_int rt a of None \<Rightarrow> Inl ValueError | Some pin \<Rightarrow> Inl IndexError)"
| "pairs_loop rt (a # b # rest) out =
     (case py_int rt a of
        None \<Rightarrow> Inl ValueError
      | Some pin \<Rightarrow>
          (case py_int rt b of
             None \<Rightarrow> Inl ValueError
           | Some val \<Rightarrow> pairs_loop rt rest (out(pin \<mapsto> val))))"

definition parse_line :: "pyrt \<Rightarrow> str \<Rightarrow> exn + (int \<rightharpoonup> int)" where
  "parse_line rt line =
     (if length (parts line) mod 2 \<noteq> 0 then Inl ValueError
      else pairs_loop rt (parts line) Map.empty)"

text \<open>The \<open>(pin, val)\<close> pairs the loop writes, in order, when every token is an integer.\<close>


fun int_pairs :: "pyrt \<Rightarrow> str list \<Rightarrow> (int \<times> int) list" where
  "int_pairs rt (a # b # rest) = (the (py_int rt a), the (py_int rt b)) # int_pairs rt rest"
| "int_pairs rt _ = []"

section \<open>Sample source: \<open>serial_reader.PinStates\<close> and \<open>ArduinoPinMonitor\<close>\<close>

record pin_states =
  states :: "int \<rightharpoonup> int"

definition d4 :: "pin_states \<Rightarrow> int option" where "d4 st = states st 4"
definition d5 :: "pin_states \<Rightarrow> int option" where "d5 st = states st 5"
definition d6 :: "pin_states \<Rightarrow> int option" where "d6 st = states st 6"
definition d7 :: "pin_states \<Rightarrow> int option" where "d7 st = states st 7"

text \<open>
  The pyserial port object, as far as the code looks at it: whether it is open. The
  monitor's \<open>_ser\<close> is \<open>None\<close> or such an object. The timeout, the settle delay and the
  best-effort buffer reset of \<open>open()\<close> change no value of the model and are left out.
\<close>

record serial =
  is_open :: bool

record monitor =
  mon_port :: str
  mon_baud :: int
  ser :: "serial option"

definition ArduinoPinMonitor :: "str \<Rightarrow> int \<Rightarrow> monitor" where
  "ArduinoPinMonitor p b = \<lparr> mon_port = p, mon_baud = b, ser = None \<rparr>"

text \<open>\<open>self._ser and self._ser.is_open\<close>\<close>

definition mon_is_open :: "monitor \<Rightarrow> bool" where
  "mon_is_open mon = (case ser mon of None \<Rightarrow> False | Some s \<Rightarrow> is_open s)"

definition ser_not_open_msg :: str where
  "ser_not_open_msg = lit ''Serial port is not open. Call open() first.''"

text \<open>
  \<open>open()\<close>: \<open>open_err\<close> is the message of the \<open>SerialException\<close> that \<open>serial.Serial(...)\<close>
  raises, if it does; then \<open>_ser\<close> is not assigned.
\<close>

definition mon_open :: "str option \<Rightarrow> monitor \<Rightarrow> exn + monitor" where
  "mon_open open_err mon =
     (if mon_is_open mon then Inr mon
      else (case open_err of
              Some msg \<Rightarrow> Inl (SerialException msg)
            | None \<Rightarrow> Inr (mon\<lparr>ser := Some \<lparr>is_open = True\<rparr>\<rparr>)))"

text \<open>
  \<open>close()\<close>: \<open>try: self._ser.close() finally: self._ser = None\<close>. The result pairs the
  exception that escapes (if the port's \<open>close\<close> raises) with the monitor afterwards.
\<close>

definition mon_close :: "str option \<Rightarrow> monitor \<Rightarrow> exn option \<times> monitor" where
  "mon_close close_err mon =
     (case ser mon of
        None \<Rightarrow> (None, mon)
      | Some s \<Rightarrow> (map_option SerialException close_err, mon\<lparr>ser := None\<rparr>))"

text \<open>
  \<open>read_states()\<close>. \<open>rd\<close> is what \<open>self._ser.readline()\<close> does: \<open>Inr raw\<close> returns the bytes
  (empty on a timeout), \<open>Inl msg\<close> raises \<open>SerialException(msg)\<close>, which is not caught here.
  The result is \<open>Inl\<close> for an exception, \<open>Inr None\<close> for no data, \<open>Inr (Some st)\<close> for a
  sample.
\<close>

definition read_states :: "pyrt \<Rightarrow> monitor \<Rightarrow> str + bytes \<Rightarrow> exn + pin_states option" where
  "read_states rt mon rd =
     (if \<not> mon_is_open mon then Inl (RuntimeError ser_not_open_msg)
      else (case rd of
              Inl msg \<Rightarrow> Inl (SerialException msg)
            | Inr raw \<Rightarrow>
                if raw = [] then Inr None
                else (let line = strip (utf8_replace rt raw)
                      in if line = [] then Inr None
                         else (case parse_line rt line of
                                 Inl e \<Rightarrow> Inr None
                               | Inr m \<Rightarrow> Inr (Some \<lparr>states = m\<rparr>)))))"

section \<open>Append log: \<open>json_logger\<close>\<close>

subsection \<open>\<open>datetime.now(timezone.utc).isoformat()\<close> and \<open>str.replace\<close>\<close>

text \<open>Decimal digits of a natural number, and \<open>%0wd\<close>.\<close>

fun dec_digits :: "nat \<Rightarrow> str" where
  "dec_digits n = (if n < 10 then [48 + n] else dec_digits (n div 10) @ [48 + n mod 10])"

declare dec_digits.simps [simp del]

definition zpad :: "nat \<Rightarrow> nat \<Rightarrow> str" where
  "zpad w n = replicate (w - length (dec_digits n)) 48 @ dec_digits n"

text \<open>
  \<open>isoformat()\<close> of an aware UTC datetime with the default \<open>timespec='auto'\<close>: the
  fraction is printed only when the microsecond field is not zero.
\<close>

definition isoformat :: "datetime \<Rightarrow> str" where
  "isoformat t =
     zpad 4 (year t) @ [45] @ zpad 2 (month t) @ [45] @ zpad 2 (day t) @ [84] @
     zpad 2 (hour t) @ [58] @ zpad 2 (minute t) @ [58] @ zpad 2 (second t) @
     (if microsecond t \<noteq> 0 then [46] @ zpad 6 (microsecond t) else []) @
     lit ''+00:00''"

text \<open>\<open>s.replace(old, new)\<close>: every non-overlapping occurrence, from the left.\<close>

function replace :: "str \<Rightarrow> str \<Rightarrow> str \<Rightarrow> str" where
  "replace old new s =
     (if old = [] then new @ concat (map (\<lambda>c. c # new) s)
      else if s = [] then []
      else if take (length old) s = old then new @ replace old new (drop (length old) s)
      else hd s # replace old new (tl s))"
  by pat_completeness auto
termination
  by (relation "measure (\<lambda>(old, new, s). length s)") auto

declare replace.simps [simp del]

text \<open>\<open>PinSampleJSONLogger.now_iso_utc()\<close>, given the clock reading.\<close>

definition now_iso_utc :: "datetime \<Rightarrow> str" where
  "now_iso_utc t = replace (lit ''+00:00'') (lit ''Z'') (isoformat t)"

subsection \<open>\<open>json.dumps(rec, separators=(",", ":"))\<close>\<close>

text \<open>
  JSON values as Python sees them: \<open>None\<close>, \<open>bool\<close>, \<open>int\<close>, \<open>float\<close> (kept as its text;
  the logger never produces one), \<open>str\<close>, \<open>list\<close>, and \<open>dict\<close> with string keys in
  insertion order.
\<close>

datatype json =
    JNull
  | JBool bool
  | JInt int
  | JFloat str
  | JStr str
  | JArr "json list"
  | JObj "(str \<times> json) list"

definition show_int :: "int \<Rightarrow> str" where
  "show_int i = (if i < 0 then 45 # dec_digits (nat (- i)) else dec_digits (nat i))"

definition hex_digit :: "nat \<Rightarrow> codepoint" where
  "hex_digit n = (if n < 10 then 48 + n else 87 + n)"

definition hex4 :: "nat \<Rightarrow> str" where
  "hex4 c = [hex_digit (c div 4096 mod 16), hex_digit (c div 256 mod 16),
             hex_digit (c div 16 mod 16), hex_digit (c mod 16)]"

text \<open>One character of a string under \<open>ensure_ascii=True\<close>.\<close>

definition escape_char :: "codepoint \<Rightarrow> str" where
  "escape_char c =
     (if c = 34 then [92, 34]
      else if c = 92 then [92, 92]
      else if 32 \<le> c \<and> c \<le> 126 then [c]
      else if c = 10 then [92, 110]
      else if c = 13 then [92, 114]
      else if c = 9 then [92, 116]
      else if c = 12 then [92, 102]
      else if c = 8 then [92, 98]
      else if c < 65536 then [92, 117] @ hex4 c
      else [92, 117] @ hex4 (55296 + (c - 65536) div 1024) @
           [92, 117] @ hex4 (56320 + (c - 65536) mod 1024))"

definition json_quote :: "str \<Rightarrow> str" where
  "json_quote s = [34] @ concat (map escape_char s) @ [34]"

fun join :: "str \<Rightarrow> str list \<Rightarrow> str" where
  "join sep [] = []"
| "join sep [x] = x"
| "join sep (x # y # ys) = x @ sep @ join sep (y # ys)"

fun json_dumps :: "json \<Rightarrow> str" where
  "json_dumps JNull = lit ''null''"
| "json_dumps (JBool b) = (if b then lit ''true'' else lit ''false'')"
| "json_dumps (JInt i) = show_int i"
| "json_dumps (JFloat s) = s"
| "json_dumps (JStr s) = json_quote s"
| "json_dumps (JArr xs) = [91] @ join [44] (map json_dumps xs) @ [93]"
| "json_dumps (JObj kvs) =
     [123] @ join [44] (map (\<lambda>(k, v). json_quote k @ [58] @ json_dumps v) kvs) @ [125]"

subsection \<open>\<open>JSONLogConfig\<close> and \<open>PinSampleJSONLogger\<close>\<close>

record json_log_config =
  path :: str
  flush_every :: int

text \<open>
  What happens outside the program when it runs: the clock readings and whether a
  library call raises (\<open>Some msg\<close> gives \<open>str(e)\<close>). One such record is supplied to each
  operation; the operation reads the fields of the calls it makes.
\<close>

record env =
  time_now :: real
  utc_now :: datetime
  open_log_err :: "str option"
  open_ser_err :: "str option"
  readline :: "str + bytes"
  close_ser_err :: "str option"
  write_err :: "str option"
  flush_err :: "str option"
  close_log_err :: "str option"

text \<open>
  The log file is the sequence of operations it has received through the logger's handle:
  text appended, forced flushes, closes. Opening in append mode leaves it as it is.
\<close>

datatype file_op = Wrote str | Flushed | Closed

type_synonym logfile = "file_op list"

text \<open>The text in the file: the concatenation of everything appended.\<close>

fun file_text :: "logfile \<Rightarrow> str" where
  "file_text [] = []"
| "file_text (Wrote s # ops) = s @ file_text ops"
| "file_text (_ # ops) = file_text ops"

text \<open>The logger object: \<open>fh\<close> tells whether \<open>_fh\<close> holds a handle.\<close>

record logger =
  cfg :: json_log_config
  fh :: bool
  count_since_flush :: int

definition PinSampleJSONLogger :: "json_log_config \<Rightarrow> logger" where
  "PinSampleJSONLogger c = \<lparr> cfg = c, fh = False, count_since_flush = 0 \<rparr>"

definition log_not_open_msg :: str where
  "log_not_open_msg = lit ''JSON logger is not open. Call open() first.''"

text \<open>\<open>open()\<close>: \<open>os.makedirs\<close> or \<open>open\<close> may raise \<open>OSError\<close>; then \<open>_fh\<close> stays \<open>None\<close>.\<close>

definition log_open :: "env \<Rightarrow> logger \<Rightarrow> exn option \<times> logger" where
  "log_open e lg =
     (if fh lg then (None, lg)
      else (case open_log_err e of
              Some msg \<Rightarrow> (Some (OSError msg), lg)
            | None \<Rightarrow> (None, lg\<lparr>fh := True\<rparr>)))"

text \<open>\<open>close()\<close>: \<open>try: flush(); close() finally: self._fh = None\<close>.\<close>

definition log_close :: "env \<Rightarrow> logger \<times> logfile \<Rightarrow> exn option \<times> logger \<times> logfile" where
  "log_close e = (\<lambda>(lg, f).
     if fh lg then
       (case flush_err e of
          Some msg \<Rightarrow> (Some (OSError msg), lg\<lparr>fh := False\<rparr>, f)
        | None \<Rightarrow>
            (case close_log_err e of
               Some msg \<Rightarrow> (Some (OSError msg), lg\<lparr>fh := False\<rparr>, f @ [Flushed])
             | None \<Rightarrow> (None, lg\<lparr>fh := False\<rparr>, f @ [Flushed, Closed])))
     else (None, lg, f))"

text \<open>A pin field of the record: the integer, or \<open>None\<close>.\<close>

definition pin_json :: "int option \<Rightarrow> json" where
  "pin_json v = (case v of None \<Rightarrow> JNull | Some i \<Rightarrow> JInt i)"

text \<open>
  \<open>ts_utc or self.now_iso_utc()\<close>: the clock is taken when the argument is \<open>None\<close> or the
  empty string.
\<close>

definition stamp :: "env \<Rightarrow> str option \<Rightarrow> str" where
  "stamp e ts_utc =
     (case ts_utc of
        None \<Rightarrow> now_iso_utc (utc_now e)
      | Some ts \<Rightarrow> if ts = [] then now_iso_utc (utc_now e) else ts)"

text \<open>The dictionary \<open>rec\<close> of \<open>write_sample\<close>.\<close>

definition sample_rec :: "env \<Rightarrow> pin_states \<Rightarrow> str option \<Rightarrow> json" where
  "sample_rec e st ts_utc =
     JObj [(lit ''ts_utc'', JStr (stamp e ts_utc)),
           (lit ''d4'', pin_json (d4 st)),
           (lit ''d5'', pin_json (d5 st)),
           (lit ''d6'', pin_json (d6 st)),
           (lit ''d7'', pin_json (d7 st))]"

text \<open>The line \<open>write_sample\<close> hands to \<open>self._fh.write\<close>.\<close>

definition sample_line :: "env \<Rightarrow> pin_states \<Rightarrow> str option \<Rightarrow> str" where
  "sample_line e st ts_utc = json_dumps (sample_rec e st ts_utc) @ [10]"

text \<open>
  \<open>write_sample(states, ts_utc)\<close>. A \<open>write\<close> that raises appends nothing and leaves the
  counter; a \<open>flush\<close> that raises leaves the counter incremented.
\<close>

definition write_sample ::
  "env \<Rightarrow> pin_states \<Rightarrow> str option \<Rightarrow> logger \<times> logfile \<Rightarrow> exn option \<times> logger \<times> logfile" where
  "write_sample e st ts_utc = (\<lambda>(lg, f).
     if \<not> fh lg then (Some (RuntimeError log_not_open_msg), lg, f)
     else
       (case write_err e of
          Some msg \<Rightarrow> (Some (OSError msg), lg, f)
        | None \<Rightarrow>
            (let f1 = f @ [Wrote (sample_line e st ts_utc)];
                 lg1 = lg\<lparr>count_since_flush := count_since_flush lg + 1\<rparr>
             in if flush_every (cfg lg1) > 0 \<and> count_since_flush lg1 \<ge> flush_every (cfg lg1)
                then (case flush_err e of
                        Some msg \<Rightarrow> (Some (OSError msg), lg1, f1)
                      | None \<Rightarrow> (None, lg1\<lparr>count_since_flush := 0\<rparr>, f1 @ [Flushed]))
                else (None, lg1, f1))))"

text \<open>An environment in which no library call raises, for evaluating examples.\<close>

definition quiet_env :: "real \<Rightarrow> datetime \<Rightarrow> str + bytes \<Rightarrow> env" where
  "quiet_env tm clk rd =
     \<lparr> time_now = tm, utc_now = clk, open_log_err = None, open_ser_err = None,
       readline = rd, close_ser_err = None, write_err = None, flush_err = None,
       close_log_err = None \<rparr>"

text \<open>
  A caller that makes a sequence of \<open>write_sample\<close> calls, each with its own environment,
  and goes on after a call that raises (as the acquisition loop does).
\<close>

fun write_samples ::
  "(env \<times> pin_states \<times> str option) list \<Rightarrow> logger \<times> logfile \<Rightarrow> logger \<times> logfile" where
  "write_samples [] s = s"
| "write_samples ((e, st, ts) # calls) s = write_samples calls (snd (write_sample e st ts s))"

text \<open>The lines of the calls whose \<open>write\<close> succeeds, in order.\<close>

definition written_lines :: "(env \<times> pin_states \<times> str option) list \<Rightarrow> str list" where
  "written_lines calls = [sample_line e st ts. (e, st, ts) \<leftarrow> calls, write_err e = None]"

text \<open>
  The flush cadence in the spec's words: the \<open>i\<close>-th successful write (counted from 1,
  continuing after \<open>k\<close> earlier ones) is followed by a forced flush exactly when \<open>N\<close> is
  positive and divides \<open>i\<close>.
\<close>

definition cadence :: "int \<Rightarrow> nat \<Rightarrow> str list \<Rightarrow> logfile" where
  "cadence N k ls =
     concat (map (\<lambda>(i, l). Wrote l # (if 0 < N \<and> int i mod N = 0 then [Flushed] else []))
                 (enumerate (Suc k) ls))"

text \<open>The value of the since-flush counter after \<open>k\<close> successful writes.\<close>

definition count_after :: "int \<Rightarrow> nat \<Rightarrow> int" where
  "count_after N k = (if 0 < N then int k mod N else int k)"

section \<open>Acquisition service: \<open>services.PinLoggingService\<close>\<close>

record service_config =
  port :: str
  baud :: int
  json_path :: str
  svc_flush_every :: int
  poll_sleep_s :: real
  print_errors :: bool

text \<open>
  Where the worker thread stands in \<open>_run\<close>. Each step of the worker does the I/O up to
  the next block under the status lock and that block, so the states between steps are
  the ones another thread can see while holding the lock.
  \<^item> \<open>AtInit\<close>: before the first locked block;
  \<^item> \<open>AtOpenLog\<close>: before \<open>logger.open()\<close>;
  \<^item> \<open>AtOpenSerial\<close>: before entering \<open>with ArduinoPinMonitor(...) as mon\<close>;
  \<^item> \<open>AtLoop\<close>: at the loop test \<open>while not self._stop.is_set()\<close>;
  \<^item> \<open>AtWrite st\<close>: before \<open>logger.write_sample(states)\<close>;
  \<^item> \<open>AtExcept e\<close>: in the handler \<open>except Exception as e\<close> of the outer \<open>try\<close>;
  \<^item> \<open>AtFinally\<close>: in the \<open>finally\<close> block;
  \<^item> \<open>Done\<close>: \<open>_run\<close> has returned and the thread is no longer alive.
\<close>

datatype pc =
    AtInit
  | AtOpenLog
  | AtOpenSerial
  | AtLoop
  | AtWrite pin_states
  | AtExcept exn
  | AtFinally
  | Done

text \<open>The worker thread: its position and the two objects local to \<open>_run\<close>.\<close>

record worker =
  w_at :: pc
  w_log :: logger
  w_mon :: monitor

text \<open>
  The service object, with the log file beside it. \<open>spawned\<close> counts the calls of
  \<open>Thread.start()\<close>; it is not a field of the class. Printing to the console
  (\<open>print_errors\<close>) and sleeping (\<open>poll_sleep_s\<close>) change nothing here and are left out.
\<close>

record service =
  scfg :: service_config
  stop_ev :: bool
  thread :: "worker option"
  running :: bool
  started_at :: "real option"
  last_sample_at :: "real option"
  last_states :: "pin_states option"
  samples_written :: int
  bad_reads :: int
  last_error :: "str option"
  logfile :: logfile
  spawned :: nat

definition PinLoggingService :: "service_config \<Rightarrow> logfile \<Rightarrow> service" where
  "PinLoggingService c f =
     \<lparr> scfg = c, stop_ev = False, thread = None, running = False, started_at = None,
       last_sample_at = None, last_states = None, samples_written = 0, bad_reads = 0,
       last_error = None, logfile = f, spawned = 0 \<rparr>"

text \<open>\<open>is_running()\<close>: \<open>bool(self._thread and self._thread.is_alive())\<close>\<close>

definition is_running :: "service \<Rightarrow> bool" where
  "is_running s = (case thread s of None \<Rightarrow> False | Some w \<Rightarrow> w_at w \<noteq> Done)"

text \<open>\<open>start()\<close>: the new thread begins at the top of \<open>_run\<close> with its fresh logger.\<close>

definition start :: "service \<Rightarrow> service" where
  "start s =
     (if is_running s then s
      else s\<lparr> stop_ev := False,
              thread := Some \<lparr> w_at = AtInit,
                               w_log = PinSampleJSONLogger
                                      \<lparr>path = json_path (scfg s),
                                       flush_every = svc_flush_every (scfg s)\<rparr>,
                               w_mon = ArduinoPinMonitor (port (scfg s)) (baud (scfg s)) \<rparr>,
              spawned := spawned s + 1 \<rparr>)"

text \<open>
  \<open>stop()\<close> in its two effects on the service: setting the event, and, after the join
  has returned (the worker finished or two seconds passed), clearing \<open>_running\<close>.
\<close>

definition stop_signal :: "service \<Rightarrow> service" where
  "stop_signal s = s\<lparr>stop_ev := True\<rparr>"

definition stop_finish :: "service \<Rightarrow> service" where
  "stop_finish s = s\<lparr>running := False\<rparr>"

text \<open>\<open>stop()\<close> when no step of a worker falls inside the call.\<close>

definition stop :: "service \<Rightarrow> service" where
  "stop s = stop_finish (stop_signal s)"

text \<open>The dictionary returned by \<open>get_status()\<close>.\<close>

record status =
  st_running :: bool
  st_port :: str
  st_baud :: int
  st_json_path :: str
  st_uptime_s :: "real option"
  st_last_sample_age_s :: "real option"
  st_samples_written :: int
  st_bad_reads :: int
  st_last_error :: "str option"
  st_d4 :: "int option"
  st_d5 :: "int option"
  st_d6 :: "int option"
  st_d7 :: "int option"

text \<open>
  \<open>get_status()\<close>, all under the lock; \<open>now\<close> is \<open>time.time()\<close>. \<open>x if t else None\<close> tests
  the truth of \<open>t\<close>: \<open>None\<close> and \<open>0.0\<close> are false.
\<close>

definition since :: "real \<Rightarrow> real option \<Rightarrow> real option" where
  "since now t = (case t of None \<Rightarrow> None | Some v \<Rightarrow> if v = 0 then None else Some (now - v))"

definition get_status :: "real \<Rightarrow> service \<Rightarrow> status" where
  "get_status now s =
     \<lparr> st_running = is_running s,
       st_port = port (scfg s),
       st_baud = baud (scfg s),
       st_json_path = json_path (scfg s),
       st_uptime_s = since now (started_at s),
       st_last_sample_age_s = since now (last_sample_at s),
       st_samples_written = samples_written s,
       st_bad_reads = bad_reads s,
       st_last_error = last_error s,
       st_d4 = (case last_states s of None \<Rightarrow> None | Some l \<Rightarrow> d4 l),
       st_d5 = (case last_states s of None \<Rightarrow> None | Some l \<Rightarrow> d5 l),
       st_d6 = (case last_states s of None \<Rightarrow> None | Some l \<Rightarrow> d6 l),
       st_d7 = (case last_states s of None \<Rightarrow> None | Some l \<Rightarrow> d7 l) \<rparr>"

text \<open>\<open>_set_error(msg)\<close>\<close>

definition set_error :: "str \<Rightarrow> service \<Rightarrow> service" where
  "set_error msg s = s\<lparr>last_error := Some msg\<rparr>"

text \<open>
  One step of the worker thread in \<open>_run\<close>, with the environment of that step. An
  exception raised inside \<open>with ... as mon\<close> leaves through \<open>__exit__\<close>, which closes the
  monitor; if that close raises too, its exception is the one that goes on.
\<close>

definition worker_step :: "pyrt \<Rightarrow> env \<Rightarrow> service \<Rightarrow> service" where
  "worker_step rt e s =
     (case thread s of
        None \<Rightarrow> s
      | Some w \<Rightarrow>
          (case w_at w of
             AtInit \<Rightarrow>
               s\<lparr> running := True, started_at := Some (time_now e), last_error := None,
                  thread := Some (w\<lparr>w_at := AtOpenLog\<rparr>) \<rparr>
           | AtOpenLog \<Rightarrow>
               (case log_open e (w_log w) of
                  (None, l') \<Rightarrow> s\<lparr>thread := Some (w\<lparr>w_log := l', w_at := AtOpenSerial\<rparr>)\<rparr>
                | (Some x, l') \<Rightarrow> s\<lparr>thread := Some (w\<lparr>w_log := l', w_at := AtExcept x\<rparr>)\<rparr>)
           | AtOpenSerial \<Rightarrow>
               (case mon_open (open_ser_err e) (w_mon w) of
                  Inr m' \<Rightarrow> s\<lparr>thread := Some (w\<lparr>w_mon := m', w_at := AtLoop\<rparr>)\<rparr>
                | Inl x \<Rightarrow> s\<lparr>thread := Some (w\<lparr>w_at := AtExcept x\<rparr>)\<rparr>)
           | AtLoop \<Rightarrow>
               if stop_ev s then
                 (case mon_close (close_ser_err e) (w_mon w) of
                    (None, m') \<Rightarrow> s\<lparr>thread := Some (w\<lparr>w_mon := m', w_at := AtFinally\<rparr>)\<rparr>
                  | (Some x, m') \<Rightarrow> s\<lparr>thread := Some (w\<lparr>w_mon := m', w_at := AtExcept x\<rparr>)\<rparr>)
               else
                 (case read_states rt (w_mon w) (readline e) of
                    Inl x \<Rightarrow>
                      (case mon_close (close_ser_err e) (w_mon w) of
                         (cx, m') \<Rightarrow>
                           s\<lparr>thread := Some (w\<lparr>w_mon := m',
                                  w_at := AtExcept (case cx of None \<Rightarrow> x | Some x2 \<Rightarrow> x2)\<rparr>)\<rparr>)
                  | Inr None \<Rightarrow> s\<lparr>bad_reads := bad_reads s + 1\<rparr>
                  | Inr (Some st) \<Rightarrow>
                      s\<lparr> last_states := Some st, last_sample_at := Some (time_now e),
                         thread := Some (w\<lparr>w_at := AtWrite st\<rparr>) \<rparr>)
           | AtWrite st \<Rightarrow>
               (case write_sample e st None (w_log w, logfile s) of
                  (None, l', f') \<Rightarrow>
                    s\<lparr> samples_written := samples_written s + 1, logfile := f',
                       thread := Some (w\<lparr>w_log := l', w_at := AtLoop\<rparr>) \<rparr>
                | (Some x, l', f') \<Rightarrow>
                    set_error (lit ''JSON write error: '' @ exn_str x)
                      (s\<lparr> logfile := f', thread := Some (w\<lparr>w_log := l', w_at := AtLoop\<rparr>) \<rparr>))
           | AtExcept x \<Rightarrow>
               set_error (lit ''fatal: '' @ exn_str x) (s\<lparr>thread := Some (w\<lparr>w_at := AtFinally\<rparr>)\<rparr>)
           | AtFinally \<Rightarrow>
               (case log_close e (w_log w, logfile s) of
                  (cx, l', f') \<Rightarrow>
                    s\<lparr> running := False, logfile := f',
                       thread := Some (w\<lparr>w_log := l', w_at := Done\<rparr>) \<rparr>)
           | Done \<Rightarrow> s))"

text \<open>The worker running alone through a list of environments, one per step.\<close>

fun run_worker :: "pyrt \<Rightarrow> env list \<Rightarrow> service \<Rightarrow> service" where
  "run_worker rt [] s = s"
| "run_worker rt (e # es) s = run_worker rt es (worker_step rt e s)"

text \<open>
  The service with its two threads: a step of the worker, or one of the caller's
  operations on the shared state. The states reachable from a new service are the ones
  a \<open>get_status()\<close> call can find under the lock.
\<close>

datatype event = Worker env | Start | StopSignal | StopFinish

fun exec :: "pyrt \<Rightarrow> event \<Rightarrow> service \<Rightarrow> service" where
  "exec rt (Worker e) s = worker_step rt e s"
| "exec rt Start s = start s"
| "exec rt StopSignal s = stop_signal s"
| "exec rt StopFinish s = stop_finish s"

inductive reachable :: "pyrt \<Rightarrow> service_config \<Rightarrow> logfile \<Rightarrow> service \<Rightarrow> bool"
  for rt :: pyrt and c :: service_config and f :: logfile where
  init: "reachable rt c f (PinLoggingService c f)"
| step: "reachable rt c f s \<Longrightarrow> reachable rt c f (exec rt ev s)"

text \<open>
  The invariant behind the status snapshot: once a sample has been counted, and already
  while the worker is about to write one, the last-sample cache and its time are set;
  the count is never negative.
\<close>

definition cache_inv :: "service \<Rightarrow> bool" where
  "cache_inv s \<longleftrightarrow>
     0 \<le> samples_written s \<and>
     (1 \<le> samples_written s \<longrightarrow> last_states s \<noteq> None \<and> last_sample_at s \<noteq> None) \<and>
     (\<forall>w st. thread s = Some w \<and> w_at w = AtWrite st \<longrightarrow>
        last_states s \<noteq> None \<and> last_sample_at s \<noteq> None)"

text \<open>The configuration of \<open>main.py\<close> and a clock reading, for evaluating examples.\<close>

definition main_cfg :: service_config where
  "main_cfg = \<lparr> port = lit ''COM3'', baud = 115200, json_path = lit ''pin_samples.ndjson'',
                svc_flush_every = 1, poll_sleep_s = 0, print_errors = True \<rparr>"

definition clock1 :: datetime where
  "clock1 = \<lparr> year = 2026, month = 1, day = 13, hour = 4, minute = 32, second = 10,
              microsecond = 123456 \<rparr>"

text \<open>
  The service of \<open>main.py\<close> once its worker, started at time 1, has opened the log and
  the port and stands at the loop test; \<open>f\<close> is the log file.
\<close>

definition loop_state :: "logfile \<Rightarrow> service" where
  "loop_state f = \<lparr> scfg = main_cfg, stop_ev = False,
     thread = Some \<lparr> w_at = AtLoop,
                     w_log = \<lparr>cfg = \<lparr>path = lit ''pin_samples.ndjson'', flush_every = 1\<rparr>,
                              fh = True, count_since_flush = 0\<rparr>,
                     w_mon = \<lparr>mon_port = lit ''COM3'', mon_baud = 115200,
                              ser = Some \<lparr>is_open = True\<rparr>\<rparr> \<rparr>,
     running = True, started_at = Some 1, last_sample_at = None, last_states = None,
     samples_written = 0, bad_reads = 0, last_error = None, logfile = f, spawned = 1 \<rparr>"

section \<open>Log reader: \<open>plot_pins.read_ndjson\<close>\<close>

subsection \<open>\<open>json.loads\<close>\<close>

text \<open>
  The decoder of the \<open>json\<close> module (its C scanner), on the text that is still unread.
  Every error is \<open>None\<close>; the reader catches them all alike.
\<close>

definition is_json_ws :: "codepoint \<Rightarrow> bool" where
  "is_json_ws c \<longleftrightarrow> c = 32 \<or> c = 9 \<or> c = 10 \<or> c = 13"

definition skip_ws :: "str \<Rightarrow> str" where
  "skip_ws s = dropWhile is_json_ws s"

definition hex_value :: "codepoint \<Rightarrow> nat option" where
  "hex_value c =
     (if 48 \<le> c \<and> c \<le> 57 then Some (c - 48)
      else if 97 \<le> c \<and> c \<le> 102 then Some (c - 87)
      else if 65 \<le> c \<and> c \<le> 70 then Some (c - 55)
      else None)"

text \<open>The value of the first four characters as hexadecimal digits.\<close>

definition hex4_value :: "str \<Rightarrow> nat option" where
  "hex4_value s =
     (case s of
        a # b # c # d # _ \<Rightarrow>
          (case (hex_value a, hex_value b, hex_value c, hex_value d) of
             (Some w, Some x, Some y, Some z) \<Rightarrow> Some (((w * 16 + x) * 16 + y) * 16 + z)
           | _ \<Rightarrow> None)
      | _ \<Rightarrow> None)"

definition simple_escape :: "codepoint \<Rightarrow> codepoint option" where
  "simple_escape e =
     (if e = 34 \<or> e = 92 \<or> e = 47 then Some e
      else if e = 98 then Some 8
      else if e = 102 then Some 12
      else if e = 110 then Some 10
      else if e = 114 then Some 13
      else if e = 116 then Some 9
      else None)"

text \<open>
  \<open>scanstring\<close> (strict): the text after the opening quote; returns the string and the
  text after the closing quote. A \<open>\u\<close> escape needs its four digits and one more
  character; a high surrogate followed by a \<open>\u\<close> escape of a low surrogate is joined.
\<close>

function scanstring :: "str \<Rightarrow> str \<Rightarrow> (str \<times> str) option" where
  "scanstring acc [] = None"
| "scanstring acc (c # cs) =
     (if c = 34 then Some (acc, cs)
      else if c = 92 then
        (case cs of
           [] \<Rightarrow> None
         | e # r \<Rightarrow>
             if e \<noteq> 117 then
               (case simple_escape e of
                  None \<Rightarrow> None
                | Some ch \<Rightarrow> scanstring (acc @ [ch]) r)
             else if length r < 5 then None
             else
               (case hex4_value r of
                  None \<Rightarrow> None
                | Some c1 \<Rightarrow>
                    if 55296 \<le> c1 \<and> c1 \<le> 56319 \<and> 7 \<le> length (drop 4 r) \<and>
                       take 2 (drop 4 r) = [92, 117]
                    then
                      (case hex4_value (drop 6 r) of
                         None \<Rightarrow> None
                       | Some c2 \<Rightarrow>
                           if 56320 \<le> c2 \<and> c2 \<le> 57343
                           then scanstring
                                  (acc @ [65536 + (c1 - 55296) * 1024 + (c2 - 56320)])
                                  (drop 10 r)
                           else scanstring (acc @ [c1]) (drop 4 r))
                    else scanstring (acc @ [c1]) (drop 4 r)))
      else if c \<le> 31 then None
      else scanstring (acc @ [c]) cs)"
  by pat_completeness auto
termination
  by (relation "measure (\<lambda>(acc, s). length s)") auto

declare scanstring.simps [simp del]

text \<open>The value of a string of decimal digits.\<close>

definition digits_value :: "str \<Rightarrow> nat" where
  "digits_value ds = foldl (\<lambda>a c. a * 10 + (c - 48)) 0 ds"

text \<open>
  The fraction and the exponent of a number, if present: the matched text and the rest.
  A point counts only before a digit; an exponent only if a digit follows its optional
  sign, and neither \<open>e\<close> nor the sign may be the last character.
\<close>

definition match_frac :: "str \<Rightarrow> str \<times> str" where
  "match_frac s =
     (case s of
        p # d # r \<Rightarrow>
          if p = 46 \<and> is_digit d
          then (p # d # takeWhile is_digit r, dropWhile is_digit r)
          else ([], s)
      | _ \<Rightarrow> ([], s))"

definition match_exp :: "str \<Rightarrow> str \<times> str" where
  "match_exp s =
     (case s of
        x # r \<Rightarrow>
          if (x = 101 \<or> x = 69) \<and> r \<noteq> [] then
            (let sg = (case r of g # h # _ \<Rightarrow> if g = 45 \<or> g = 43 then [g] else [] | _ \<Rightarrow> []);
                 r1 = drop (length sg) r;
                 ds = takeWhile is_digit r1
             in if ds = [] then ([], s) else (x # sg @ ds, dropWhile is_digit r1))
          else ([], s)
      | [] \<Rightarrow> ([], s))"

text \<open>
  \<open>_match_number\<close>: an integer when there is neither fraction nor exponent, otherwise a
  float, kept as its text.
\<close>

definition match_number :: "str \<Rightarrow> (json \<times> str) option" where
  "match_number s =
     (let neg = (case s of c # _ \<Rightarrow> c = 45 | [] \<Rightarrow> False);
          s1 = (if neg then tl s else s)
      in case s1 of
           [] \<Rightarrow> None
         | c # r \<Rightarrow>
             if 49 \<le> c \<and> c \<le> 57 \<or> c = 48 then
               (let ip = (if c = 48 then [c] else c # takeWhile is_digit r);
                    r1 = (if c = 48 then r else dropWhile is_digit r);
                    (fr, r2) = match_frac r1;
                    (ex, r3) = match_exp r2
                in if fr = [] \<and> ex = []
                   then Some (JInt (if neg then - int (digits_value ip) else int (digits_value ip)),
                              r3)
                   else Some (JFloat ((if neg then [45] else []) @ ip @ fr @ ex), r3))
             else None)"

text \<open>\<open>d[k] = v\<close> on a dictionary kept in insertion order.\<close>

fun dict_set :: "(str \<times> json) list \<Rightarrow> str \<Rightarrow> json \<Rightarrow> (str \<times> json) list" where
  "dict_set [] k v = [(k, v)]"
| "dict_set ((k', v') # kvs) k v =
     (if k' = k then (k, v) # kvs else (k', v') # dict_set kvs k v)"

text \<open>
  \<open>scan_once\<close> with the loops of \<open>_parse_object\<close> (entered before a key) and
  \<open>_parse_array\<close> (entered before an element). The first argument bounds the number of
  nested calls and loop rounds; \<open>json_loads\<close> starts with more than the text can use
  (each round reads a character). The interpreter's own recursion limit is not modelled.
\<close>

fun scan_once :: "nat \<Rightarrow> str \<Rightarrow> (json \<times> str) option"
  and obj_loop :: "nat \<Rightarrow> (str \<times> json) list \<Rightarrow> str \<Rightarrow> (json \<times> str) option"
  and arr_loop :: "nat \<Rightarrow> json list \<Rightarrow> str \<Rightarrow> (json \<times> str) option" where
  "scan_once 0 s = None"
| "scan_once (Suc n) s =
     (case s of
        [] \<Rightarrow> None
      | c # r \<Rightarrow>
          if c = 34 then
            (case scanstring [] r of None \<Rightarrow> None | Some (v, r') \<Rightarrow> Some (JStr v, r'))
          else if c = 123 then
            (case skip_ws r of
               [] \<Rightarrow> obj_loop n [] []
             | c' # r' \<Rightarrow> if c' = 125 then Some (JObj [], r') else obj_loop n [] (c' # r'))
          else if c = 91 then
            (case skip_ws r of
               [] \<Rightarrow> arr_loop n [] []
             | c' # r' \<Rightarrow> if c' = 93 then Some (JArr [], r') else arr_loop n [] (c' # r'))
          else if take 4 s = lit ''null'' then Some (JNull, drop 4 s)
          else if take 4 s = lit ''true'' then Some (JBool True, drop 4 s)
          else if take 5 s = lit ''false'' then Some (JBool False, drop 5 s)
          else if take 3 s = lit ''NaN'' then Some (JFloat (lit ''NaN''), drop 3 s)
          else if take 8 s = lit ''Infinity'' then Some (JFloat (lit ''Infinity''), drop 8 s)
          else if take 9 s = lit ''-Infinity'' then Some (JFloat (lit ''-Infinity''), drop 9 s)
          else match_number s)"
| "obj_loop 0 acc s = None"
| "obj_loop (Suc n) acc s =
     (case s of
        [] \<Rightarrow> None
      | q # r \<Rightarrow>
          if q \<noteq> 34 then None
          else
            (case scanstring [] r of
               None \<Rightarrow> None
             | Some (k, r1) \<Rightarrow>
                 (case skip_ws r1 of
                    [] \<Rightarrow> None
                  | col # r2 \<Rightarrow>
                      if col \<noteq> 58 then None
                      else
                        (case scan_once n (skip_ws r2) of
                           None \<Rightarrow> None
                         | Some (v, r3) \<Rightarrow>
                             (case skip_ws r3 of
                                [] \<Rightarrow> None
                              | d # r4 \<Rightarrow>
                                  if d = 125 then Some (JObj (dict_set acc k v), r4)
                                  else if d = 44 then obj_loop n (dict_set acc k v) (skip_ws r4)
                                  else None)))))"
| "arr_loop 0 acc s = None"
| "arr_loop (Suc n) acc s =
     (case scan_once n s of
        None \<Rightarrow> None
      | Some (v, r1) \<Rightarrow>
          (case skip_ws r1 of
             [] \<Rightarrow> None
           | d # r2 \<Rightarrow>
               if d = 93 then Some (JArr (acc @ [v]), r2)
               else if d = 44 then arr_loop n (acc @ [v]) (skip_ws r2)
               else None))"

text \<open>
  \<open>json.loads(s)\<close>: a leading byte-order mark is refused; blanks may surround the value;
  anything else after it is an error.
\<close>

definition json_loads :: "str \<Rightarrow> json option" where
  "json_loads s =
     (if take 1 s = [65279] then None
      else (case scan_once (2 * length s + 2) (skip_ws s) of
              None \<Rightarrow> None
            | Some (v, r) \<Rightarrow> if skip_ws r = [] then Some v else None))"

subsection \<open>\<open>Sample\<close>, \<open>_parse_ts\<close> and \<open>read_ndjson\<close>\<close>

text \<open>
  A \<open>Sample\<close> of the reader. Its pin fields hold whatever \<open>rec.get\<close> returned: \<open>JNull\<close>
  is Python's \<open>None\<close>.
\<close>

record sample =
  smp_t :: datetime
  smp_d4 :: json
  smp_d5 :: json
  smp_d6 :: json
  smp_d7 :: json

text \<open>The order of aware UTC datetimes: by their fields, most significant first.\<close>

definition dt_key :: "datetime \<Rightarrow> nat \<times> nat \<times> nat \<times> nat \<times> nat \<times> nat \<times> nat" where
  "dt_key t = (year t, month t, day t, hour t, minute t, second t, microsecond t)"

text \<open>\<open>_parse_ts(ts)\<close>\<close>

definition parse_ts :: "pyrt \<Rightarrow> str \<Rightarrow> datetime option" where
  "parse_ts rt ts =
     fromisoformat_utc rt
       (if ts \<noteq> [] \<and> last ts = 90 then butlast ts @ lit ''+00:00'' else ts)"

text \<open>\<open>rec.get(k)\<close> on a dictionary: \<open>None\<close> for a missing key.\<close>

definition dict_get :: "(str \<times> json) list \<Rightarrow> str \<Rightarrow> json" where
  "dict_get kvs k = (case map_of kvs k of None \<Rightarrow> JNull | Some v \<Rightarrow> v)"

text \<open>
  The body of the loop over the lines of the file: \<open>None\<close> when the line is skipped
  (blank, or any exception: not JSON, not a dictionary, no string \<open>ts_utc\<close>, a timestamp
  that does not parse, or older than the cutoff). \<open>cutoff\<close> is \<open>now - since_seconds\<close>, and
  \<open>None\<close> when \<open>since_seconds\<close> is \<open>None\<close>.
\<close>

definition read_record :: "pyrt \<Rightarrow> datetime option \<Rightarrow> str \<Rightarrow> sample option" where
  "read_record rt cutoff line0 =
     (let line = strip line0
      in if line = [] then None
         else (case json_loads line of
                 Some (JObj kvs) \<Rightarrow>
                   (case map_of kvs (lit ''ts_utc'') of
                      Some (JStr ts) \<Rightarrow>
                        (case parse_ts rt ts of
                           None \<Rightarrow> None
                         | Some t \<Rightarrow>
                             if (case cutoff of None \<Rightarrow> False | Some c \<Rightarrow> dt_key t < dt_key c)
                             then None
                             else Some \<lparr> smp_t = t,
                                         smp_d4 = dict_get kvs (lit ''d4''),
                                         smp_d5 = dict_get kvs (lit ''d5''),
                                         smp_d6 = dict_get kvs (lit ''d6''),
                                         smp_d7 = dict_get kvs (lit ''d7'') \<rparr>)
                    | _ \<Rightarrow> None)
               | _ \<Rightarrow> None))"

text \<open>
  Iterating over a text file opened for reading: the lines, each ending where a
  \<open>\n\<close>, \<open>\r\n\<close> or \<open>\r\<close> stood (read as \<open>\n\<close>); \<open>cur\<close> is the line being collected.
\<close>

fun file_lines :: "str \<Rightarrow> str \<Rightarrow> str list" where
  "file_lines cur [] = (if cur = [] then [] else [cur])"
| "file_lines cur [c] =
     (if c = 10 \<or> c = 13 then [cur @ [10]] else [cur @ [c]])"
| "file_lines cur (c # d # cs) =
     (if c = 10 then (cur @ [10]) # file_lines [] (d # cs)
      else if c = 13 then
        (if d = 10 then (cur @ [10]) # file_lines [] cs
         else (cur @ [10]) # file_lines [] (d # cs))
      else file_lines (cur @ [c]) (d # cs))"

text \<open>
  \<open>read_ndjson\<close> on the text of the file. Python's \<open>sort\<close> is stable, as \<open>sort_key\<close> is.
\<close>

definition read_ndjson :: "pyrt \<Rightarrow> datetime option \<Rightarrow> str \<Rightarrow> sample list" where
  "read_ndjson rt cutoff text =
     sort_key (\<lambda>s. dt_key (smp_t s))
       (List.map_filter (read_record rt cutoff) (file_lines [] text))"

subsection \<open>A runtime for evaluating examples\<close>

text \<open>
  A reader of exactly the two shapes \<open>YYYY-MM-DDTHH:MM:SS+00:00\<close> and
  \<open>YYYY-MM-DDTHH:MM:SS.ffffff+00:00\<close>.
\<close>

definition iso_fixed :: "str \<Rightarrow> datetime option" where
  "iso_fixed s =
     (let n = length s;
          num = (\<lambda>i w. digits_value (take w (drop i s)));
          ok = (\<lambda>i w. list_all is_digit (take w (drop i s)))
      in if (n = 25 \<or> n = 32) \<and> ok 0 4 \<and> ok 5 2 \<and> ok 8 2 \<and> ok 11 2 \<and> ok 14 2 \<and> ok 17 2 \<and>
            take 1 (drop 4 s) = [45] \<and> take 1 (drop 7 s) = [45] \<and>
            take 1 (drop 10 s) = [84] \<and> take 1 (drop 13 s) = [58] \<and>
            take 1 (drop 16 s) = [58] \<and> drop (n - 6) s = lit ''+00:00'' \<and>
            (n = 32 \<longrightarrow> take 1 (drop 19 s) = [46] \<and> ok 20 6)
         then Some \<lparr> year = num 0 4, month = num 5 2, day = num 8 2, hour = num 11 2,
                     minute = num 14 2, second = num 17 2,
                     microsecond = (if n = 32 then num 20 6 else 0) \<rparr>
         else None)"

text \<open>
  Only the ASCII digits are decimal digits, the decoder is exact on ASCII bytes (any
  other byte becomes U+FFFD), and timestamps are read in the two shapes above.
\<close>

definition ascii_rt :: pyrt where
  "ascii_rt = \<lparr> to_decimal = (\<lambda>c. if 48 \<le> c \<and> c \<le> 57 then Some (c - 48) else None),
                utf8_replace = map (\<lambda>b. if b < 128 then b else 65533),
                fromisoformat_utc = iso_fixed \<rparr>"

section \<open>Properties of the line codec\<close>

lemma pairs_loop_valid:
  "even (length ts) \<Longrightarrow> \<forall>t \<in> set ts. py_int rt t \<noteq> None \<Longrightarrow>
   pairs_loop rt ts out = Inr (out ++ map_of (rev (int_pairs rt ts)))"
proof (induction rt ts out rule: pairs_loop.induct)
  case (1 rt out)
  then show ?case by simp
next
  case (2 rt a out)
  then show ?case by simp
next
  case (3 rt a b rest out)
  from "3.prems" obtain pin val where pv: "py_int rt a = Some pin" "py_int rt b = Some val"
    by auto
  have ev: "even (length rest)" using "3.prems" by simp
  have va: "\<forall>t \<in> set rest. py_int rt t \<noteq> None" using "3.prems" by simp
  have step: "pairs_loop rt (a # b # rest) out = pairs_loop rt rest (out(pin \<mapsto> val))"
    using pv by simp
  have ih: "pairs_loop rt rest (out(pin \<mapsto> val)) =
        Inr (out(pin \<mapsto> val) ++ map_of (rev (int_pairs rt rest)))"
    using "3.IH" [OF pv(1) pv(2) ev va] .
  have maps: "out(pin \<mapsto> val) ++ map_of (rev (int_pairs rt rest)) =
                 out ++ map_of (rev (int_pairs rt (a # b # rest)))"
    using pv by (intro ext) (simp add: map_add_def split: option.splits)
  show ?case unfolding step ih maps ..
qed

lemma pairs_loop_invalid:
  "even (length ts) \<Longrightarrow> \<exists>t \<in> set ts. py_int rt t = None \<Longrightarrow>
   pairs_loop rt ts out = Inl ValueError"
proof (induction rt ts out rule: pairs_loop.induct)
  case (3 rt a b rest out)
  show ?case
  proof (cases "py_int rt a")
    case None
    then show ?thesis by simp
  next
    case (Some pin)
    note A = this
    show ?thesis
    proof (cases "py_int rt b")
      case None
      then show ?thesis using A by simp
    next
      case (Some val)
      have "\<exists>t \<in> set rest. py_int rt t = None" using "3.prems"(2) A Some by auto
      moreover have "even (length rest)" using "3.prems"(1) by simp
      ultimately have "pairs_loop rt rest (out(pin \<mapsto> val)) = Inl ValueError"
        using "3.IH" [OF A Some] by blast
      then show ?thesis using A Some by simp
    qed
  qed
qed simp_all

lemma nth_int_pairs:
  "i < length ts div 2 \<Longrightarrow>
   int_pairs rt ts ! i = (the (py_int rt (ts ! (2 * i))), the (py_int rt (ts ! (2 * i + 1))))"
proof (induction rt ts arbitrary: i rule: int_pairs.induct)
  case (1 rt a b rest)
  then show ?case by (cases i) simp_all
qed simp_all

lemma map_of_rev_last:
  "map_of (rev ps) k = Some v \<longleftrightarrow>
   (\<exists>i < length ps. ps ! i = (k, v) \<and> (\<forall>j. i < j \<and> j < length ps \<longrightarrow> fst (ps ! j) \<noteq> k))"
  (is "?M ps \<longleftrightarrow> ?E ps")
proof (induction ps rule: rev_induct)
  case Nil
  then show ?case by simp
next
  case (snoc p ps)
  obtain a b where p: "p = (a, b)" by (cases p)
  have nth_last: "(ps @ [p]) ! length ps = p" by simp
  have nth_init: "\<And>j. j < length ps \<Longrightarrow> (ps @ [p]) ! j = ps ! j" by (simp add: nth_append)
  have len: "length (ps @ [p]) = Suc (length ps)" by simp
  show ?case
  proof (cases "a = k")
    case True
    have "?E (ps @ [p]) \<longleftrightarrow> b = v"
    proof
      assume "?E (ps @ [p])"
      then obtain i where i: "i < Suc (length ps)" "(ps @ [p]) ! i = (k, v)"
        "\<forall>j. i < j \<and> j < Suc (length ps) \<longrightarrow> fst ((ps @ [p]) ! j) \<noteq> k"
        unfolding len by blast
      have "i = length ps"
      proof (rule ccontr)
        assume "i \<noteq> length ps"
        then have "i < length ps" using i(1) by arith
        then have "fst ((ps @ [p]) ! length ps) \<noteq> k" using i(3) by blast
        then show False unfolding nth_last using p True by simp
      qed
      then show "b = v" using i(2) p nth_last by simp
    next
      assume "b = v"
      then have a: "(ps @ [p]) ! length ps = (k, v)" using p True nth_last by simp
      have b: "\<forall>j. length ps < j \<and> j < Suc (length ps) \<longrightarrow> fst ((ps @ [p]) ! j) \<noteq> k"
        by arith
      have c: "length ps < Suc (length ps)" by simp
      show "?E (ps @ [p])" unfolding len using a b c by blast
    qed
    moreover have "?M (ps @ [p]) \<longleftrightarrow> b = v" using p True by simp
    ultimately show ?thesis by blast
  next
    case False
    have "?E (ps @ [p]) \<longleftrightarrow> ?E ps"
    proof
      assume "?E (ps @ [p])"
      then obtain i where i: "i < Suc (length ps)" "(ps @ [p]) ! i = (k, v)"
        "\<forall>j. i < j \<and> j < Suc (length ps) \<longrightarrow> fst ((ps @ [p]) ! j) \<noteq> k"
        unfolding len by blast
      have il: "i < length ps"
      proof (rule ccontr)
        assume "\<not> i < length ps"
        then have "i = length ps" using i(1) by arith
        then show False using i(2) p False nth_last by simp
      qed
      have "ps ! i = (k, v)" using i(2) nth_init [OF il] by simp
      moreover have "\<forall>j. i < j \<and> j < length ps \<longrightarrow> fst (ps ! j) \<noteq> k"
      proof (intro allI impI)
        fix j assume j: "i < j \<and> j < length ps"
        then have "fst ((ps @ [p]) ! j) \<noteq> k" using i(3) by simp
        then show "fst (ps ! j) \<noteq> k" using j nth_init [of j] by simp
      qed
      ultimately show "?E ps" using il by blast
    next
      assume "?E ps"
      then obtain i where i: "i < length ps" "ps ! i = (k, v)"
        "\<forall>j. i < j \<and> j < length ps \<longrightarrow> fst (ps ! j) \<noteq> k" by blast
      have a: "(ps @ [p]) ! i = (k, v)" using i nth_init [of i] by simp
      have b: "\<forall>j. i < j \<and> j < Suc (length ps) \<longrightarrow> fst ((ps @ [p]) ! j) \<noteq> k"
      proof (intro allI impI)
        fix j assume j: "i < j \<and> j < Suc (length ps)"
        show "fst ((ps @ [p]) ! j) \<noteq> k"
        proof (cases "j < length ps")
          case True
          then show ?thesis using i(3) j nth_init [of j] by simp
        next
          case False
          then have "j = length ps" using j by arith
          then show ?thesis using p \<open>a \<noteq> k\<close> nth_last by simp
        qed
      qed
      have c: "i < Suc (length ps)" using i(1) by simp
      show "?E (ps @ [p])" unfolding len using a b c by blast
    qed
    moreover have "?M (ps @ [p]) \<longleftrightarrow> ?M ps" using p False by simp
    ultimately show ?thesis using snoc.IH by blast
  qed
qed

lemma length_int_pairs: "length (int_pairs rt ts) = length ts div 2"
  by (induction rt ts rule: int_pairs.induct) simp_all

text \<open>
  C1. When the trimmed non-empty tokens of a line are an even number of valid integers,
  \<open>parse_line\<close> returns the mapping that sends each pin to the value of its last
  occurrence in the line; when the number of tokens is odd or some token is not a valid
  integer, it raises \<open>ValueError\<close> (the spec's MalformedLine).
\<close>

theorem parse_line_last_write_wins:
  "(even (length (parts line)) \<and> (\<forall>t \<in> set (parts line). py_int rt t \<noteq> None) \<longrightarrow>
      (\<exists>m. parse_line rt line = Inr m \<and>
           (\<forall>pin v. m pin = Some v \<longleftrightarrow>
              (\<exists>i. 2 * i + 1 < length (parts line) \<and>
                   py_int rt (parts line ! (2 * i)) = Some pin \<and>
                   py_int rt (parts line ! (2 * i + 1)) = Some v \<and>
                   (\<forall>j. i < j \<and> 2 * j + 1 < length (parts line) \<longrightarrow>
                        py_int rt (parts line ! (2 * j)) \<noteq> Some pin)))))
   \<and> (odd (length (parts line)) \<or> (\<exists>t \<in> set (parts line). py_int rt t = None) \<longrightarrow>
        parse_line rt line = Inl ValueError)"
proof (intro conjI impI)
  assume ok: "even (length (parts line)) \<and> (\<forall>t \<in> set (parts line). py_int rt t \<noteq> None)"
  define ts where "ts = parts line"
  define ps where "ps = int_pairs rt ts"
  have ev: "even (length ts)" and va: "\<forall>t \<in> set ts. py_int rt t \<noteq> None"
    using ok by (simp_all add: ts_def)
  have res: "parse_line rt line = Inr (map_of (rev ps))"
    using pairs_loop_valid [OF ev va, of Map.empty] ev
    by (simp add: parse_line_def ts_def ps_def)
  have len: "length ps = length ts div 2" by (simp add: ps_def length_int_pairs)
  have idx: "\<And>i. i < length ts div 2 \<longleftrightarrow> 2 * i + 1 < length ts"
    using ev by (auto elim!: evenE)
  have some: "\<And>n. n < length ts \<Longrightarrow> \<exists>x. py_int rt (ts ! n) = Some x"
    using va by (metis nth_mem not_Some_eq)
  have ent: "\<And>i a b. 2 * i + 1 < length ts \<Longrightarrow>
               ps ! i = (a, b) \<longleftrightarrow>
               py_int rt (ts ! (2 * i)) = Some a \<and> py_int rt (ts ! (2 * i + 1)) = Some b"
  proof -
    fix i a b assume i: "2 * i + 1 < length ts"
    then have i2: "i < length ts div 2" using idx by simp
    from i have "2 * i < length ts" by simp
    then obtain x where x: "py_int rt (ts ! (2 * i)) = Some x" using some by blast
    obtain y where y: "py_int rt (ts ! (2 * i + 1)) = Some y" using some [OF i] by blast
    show "ps ! i = (a, b) \<longleftrightarrow>
          py_int rt (ts ! (2 * i)) = Some a \<and> py_int rt (ts ! (2 * i + 1)) = Some b"
      unfolding ps_def nth_int_pairs [OF i2] x y by simp
  qed
  have fstent: "\<And>j a. 2 * j + 1 < length ts \<Longrightarrow>
               fst (ps ! j) \<noteq> a \<longleftrightarrow> py_int rt (ts ! (2 * j)) \<noteq> Some a"
  proof -
    fix j a assume j: "2 * j + 1 < length ts"
    obtain c d where cd: "ps ! j = (c, d)" by (cases "ps ! j")
    then have "py_int rt (ts ! (2 * j)) = Some c" using ent [OF j, of c d] by simp
    then show "fst (ps ! j) \<noteq> a \<longleftrightarrow> py_int rt (ts ! (2 * j)) \<noteq> Some a"
      using cd by simp
  qed
  have char: "\<forall>pin v. map_of (rev ps) pin = Some v \<longleftrightarrow>
              (\<exists>i. 2 * i + 1 < length ts \<and>
                   py_int rt (ts ! (2 * i)) = Some pin \<and>
                   py_int rt (ts ! (2 * i + 1)) = Some v \<and>
                   (\<forall>j. i < j \<and> 2 * j + 1 < length ts \<longrightarrow>
                        py_int rt (ts ! (2 * j)) \<noteq> Some pin))"
  proof (intro allI)
    fix pin v
    have "map_of (rev ps) pin = Some v \<longleftrightarrow>
          (\<exists>i. 2 * i + 1 < length ts \<and> ps ! i = (pin, v) \<and>
               (\<forall>j. i < j \<and> 2 * j + 1 < length ts \<longrightarrow> fst (ps ! j) \<noteq> pin))"
      unfolding map_of_rev_last len idx by blast
    also have "\<dots> \<longleftrightarrow>
          (\<exists>i. 2 * i + 1 < length ts \<and>
                   py_int rt (ts ! (2 * i)) = Some pin \<and>
                   py_int rt (ts ! (2 * i + 1)) = Some v \<and>
                   (\<forall>j. i < j \<and> 2 * j + 1 < length ts \<longrightarrow>
                        py_int rt (ts ! (2 * j)) \<noteq> Some pin))"
      using ent fstent by blast
    finally show "map_of (rev ps) pin = Some v \<longleftrightarrow>
          (\<exists>i. 2 * i + 1 < length ts \<and>
                   py_int rt (ts ! (2 * i)) = Some pin \<and>
                   py_int rt (ts ! (2 * i + 1)) = Some v \<and>
                   (\<forall>j. i < j \<and> 2 * j + 1 < length ts \<longrightarrow>
                        py_int rt (ts ! (2 * j)) \<noteq> Some pin))" .
  qed
  show "\<exists>m. parse_line rt line = Inr m \<and>
           (\<forall>pin v. m pin = Some v \<longleftrightarrow>
              (\<exists>i. 2 * i + 1 < length (parts line) \<and>
                   py_int rt (parts line ! (2 * i)) = Some pin \<and>
                   py_int rt (parts line ! (2 * i + 1)) = Some v \<and>
                   (\<forall>j. i < j \<and> 2 * j + 1 < length (parts line) \<longrightarrow>
                        py_int rt (parts line ! (2 * j)) \<noteq> Some pin)))"
    using res char unfolding ts_def by blast
next
  assume bad: "odd (length (parts line)) \<or> (\<exists>t \<in> set (parts line). py_int rt t = None)"
  show "parse_line rt line = Inl ValueError"
  proof (cases "odd (length (parts line))")
    case True
    then show ?thesis by (simp add: parse_line_def odd_iff_mod_2_eq_one)
  next
    case False
    then have ev: "even (length (parts line))" by simp
    then have "\<exists>t \<in> set (parts line). py_int rt t = None" using bad by blast
    from pairs_loop_invalid [OF ev this, of Map.empty] ev
    show ?thesis by (simp add: parse_line_def)
  qed
qed

lemma py_int_digit: "48 \<le> c \<Longrightarrow> c \<le> 57 \<Longrightarrow> py_int ascii_rt [c] = Some (int (c - 48))"
  by (simp add: py_int_def to_ascii_def long_from_string_def c_isspace_def is_digit_def)

theorem parse_line_last_write_wins_witness:
  "(\<exists>m. parse_line ascii_rt (lit ''4,1, 5 ,0,,4,0'') = Inr m \<and> m 4 = Some 0 \<and> m 5 = Some 0)
   \<and> parse_line ascii_rt (lit ''4,1,5'') = Inl ValueError"
proof -
  let ?l = "lit ''4,1, 5 ,0,,4,0''"
  have p: "parts ?l = [[52], [49], [53], [48], [52], [48]]"
    by (simp add: parts_def strip_def py_isspace_def)
  have hyp: "even (length (parts ?l)) \<and> (\<forall>t \<in> set (parts ?l). py_int ascii_rt t \<noteq> None)"
    unfolding p by (simp add: py_int_digit)
  from conjunct1 [OF parse_line_last_write_wins [of ?l ascii_rt]] hyp
  obtain m where m: "parse_line ascii_rt ?l = Inr m"
    and ch: "\<And>pin v. m pin = Some v \<longleftrightarrow>
              (\<exists>i. 2 * i + 1 < length (parts ?l) \<and>
                   py_int ascii_rt (parts ?l ! (2 * i)) = Some pin \<and>
                   py_int ascii_rt (parts ?l ! (2 * i + 1)) = Some v \<and>
                   (\<forall>j. i < j \<and> 2 * j + 1 < length (parts ?l) \<longrightarrow>
                        py_int ascii_rt (parts ?l ! (2 * j)) \<noteq> Some pin))"
    by blast
  have m4: "m 4 = Some 0"
    unfolding ch p by (intro exI [of _ 2]) (simp add: py_int_digit)
  have m5: "m 5 = Some 0"
    unfolding ch p
  proof (intro exI [of _ 1] conjI allI impI)
    fix j assume "1 < j \<and> 2 * j + 1 < length [[52], [49], [53], [48], [52], [48::nat]]"
    then have "j = 2" by simp
    then show "py_int ascii_rt ([[52], [49], [53], [48], [52], [48]] ! (2 * j)) \<noteq> Some 5"
      by (simp add: py_int_digit)
  qed (simp_all add: py_int_digit)
  let ?o = "lit ''4,1,5''"
  have po: "parts ?o = [[52], [49], [53]]"
    by (simp add: parts_def strip_def py_isspace_def)
  have "odd (length (parts ?o)) \<or> (\<exists>t \<in> set (parts ?o). py_int ascii_rt t = None)"
    unfolding po by simp
  with conjunct2 [OF parse_line_last_write_wins [of ?o ascii_rt]]
  have "parse_line ascii_rt ?o = Inl ValueError" by blast
  with m m4 m5 show ?thesis by blast
qed

section \<open>Properties of the sample source\<close>

text \<open>
  C2. \<open>read_states\<close> raises the not-open \<open>RuntimeError\<close> exactly when the serial
  connection is not open. When it is open and \<open>readline\<close> returns: no data (\<open>None\<close>) for
  an empty read (timeout) and for a line that is empty after trimming; no data, and no
  exception, when \<open>parse_line\<close> fails on the line; the decoded sample otherwise.
\<close>

theorem read_states_cases:
  "((\<exists>msg. read_states rt mon rd = Inl (RuntimeError msg)) \<longleftrightarrow> \<not> mon_is_open mon)
   \<and> (\<not> mon_is_open mon \<longrightarrow> read_states rt mon rd = Inl (RuntimeError ser_not_open_msg))
   \<and> (mon_is_open mon \<longrightarrow> read_states rt mon (Inr []) = Inr None)
   \<and> (mon_is_open mon \<and> strip (utf8_replace rt raw) = [] \<longrightarrow>
        read_states rt mon (Inr raw) = Inr None)
   \<and> (mon_is_open mon \<and> raw \<noteq> [] \<and> strip (utf8_replace rt raw) \<noteq> [] \<and>
        parse_line rt (strip (utf8_replace rt raw)) = Inl e \<longrightarrow>
        read_states rt mon (Inr raw) = Inr None)
   \<and> (mon_is_open mon \<and> raw \<noteq> [] \<and> strip (utf8_replace rt raw) \<noteq> [] \<and>
        parse_line rt (strip (utf8_replace rt raw)) = Inr m \<longrightarrow>
        read_states rt mon (Inr raw) = Inr (Some \<lparr>states = m\<rparr>))"
proof (intro conjI impI)
  show "(\<exists>msg. read_states rt mon rd = Inl (RuntimeError msg)) \<longleftrightarrow> \<not> mon_is_open mon"
    by (cases rd) (auto simp: read_states_def Let_def split: sum.splits)
qed (simp_all add: read_states_def Let_def)

lemma strip_ex1: "strip (lit ''4,1,5'' @ [10]) = lit ''4,1,5''"
  by (simp add: strip_def py_isspace_def)

lemma strip_ex2: "strip (lit ''4,1'' @ [13, 10]) = lit ''4,1''"
  by (simp add: strip_def py_isspace_def)

lemma strip_ex3: "strip [32, 10] = []"
  by (simp add: strip_def py_isspace_def)

lemma parse_line_ex2: "parse_line ascii_rt (lit ''4,1'') = Inr (Map.empty(4 \<mapsto> 1))"
  by (simp add: parse_line_def parts_def strip_def py_isspace_def py_int_digit)

lemma ascii_decode: "\<forall>b \<in> set bs. b < 128 \<Longrightarrow> utf8_replace ascii_rt bs = bs"
  by (simp add: ascii_rt_def map_idI)

theorem read_states_cases_witness:
  "read_states ascii_rt \<lparr>mon_port = lit ''COM3'', mon_baud = 115200, ser = None\<rparr>
       (Inr (lit ''4,1'' @ [13, 10])) = Inl (RuntimeError ser_not_open_msg)
   \<and> read_states ascii_rt
       \<lparr>mon_port = lit ''COM3'', mon_baud = 115200, ser = Some \<lparr>is_open = True\<rparr>\<rparr>
       (Inr []) = Inr None
   \<and> read_states ascii_rt
       \<lparr>mon_port = lit ''COM3'', mon_baud = 115200, ser = Some \<lparr>is_open = True\<rparr>\<rparr>
       (Inr [32, 10]) = Inr None
   \<and> read_states ascii_rt
       \<lparr>mon_port = lit ''COM3'', mon_baud = 115200, ser = Some \<lparr>is_open = True\<rparr>\<rparr>
       (Inr (lit ''4,1,5'' @ [10])) = Inr None
   \<and> read_states ascii_rt
       \<lparr>mon_port = lit ''COM3'', mon_baud = 115200, ser = Some \<lparr>is_open = True\<rparr>\<rparr>
       (Inr (lit ''4,1'' @ [13, 10])) = Inr (Some \<lparr>states = Map.empty(4 \<mapsto> 1)\<rparr>)"
proof -
  let ?closed = "\<lparr>mon_port = lit ''COM3'', mon_baud = 115200, ser = None\<rparr>"
  let ?opened = "\<lparr>mon_port = lit ''COM3'', mon_baud = 115200, ser = Some \<lparr>is_open = True\<rparr>\<rparr>"
  have c: "\<not> mon_is_open ?closed" and o: "mon_is_open ?opened"
    by (simp_all add: mon_is_open_def)
  have d1: "utf8_replace ascii_rt [32, 10] = [32, 10]"
    and d2: "utf8_replace ascii_rt (lit ''4,1,5'' @ [10]) = lit ''4,1,5'' @ [10]"
    and d3: "utf8_replace ascii_rt (lit ''4,1'' @ [13, 10]) = lit ''4,1'' @ [13, 10]"
    by (simp_all add: ascii_decode)
  have odd: "parse_line ascii_rt (lit ''4,1,5'') = Inl ValueError"
    by (simp add: parse_line_def parts_def strip_def py_isspace_def)
  note T = read_states_cases [where rt = ascii_rt]
  have r1: "read_states ascii_rt ?closed (Inr (lit ''4,1'' @ [13, 10])) =
            Inl (RuntimeError ser_not_open_msg)"
    using T [of ?closed "Inr (lit ''4,1'' @ [13, 10])"] c by blast
  have r2: "read_states ascii_rt ?opened (Inr []) = Inr None"
    using T [of ?opened] o by blast
  have r3: "read_states ascii_rt ?opened (Inr [32, 10]) = Inr None"
    using T [of ?opened _ "[32, 10]"] o d1 strip_ex3 by simp
  have r4: "read_states ascii_rt ?opened (Inr (lit ''4,1,5'' @ [10])) = Inr None"
    using T [of ?opened _ "lit ''4,1,5'' @ [10]" ValueError] o d2 strip_ex1 odd by simp
  have r5: "read_states ascii_rt ?opened (Inr (lit ''4,1'' @ [13, 10])) =
            Inr (Some \<lparr>states = Map.empty(4 \<mapsto> 1)\<rparr>)"
    using T [of ?opened _ "lit ''4,1'' @ [13, 10]" _ "Map.empty(4 \<mapsto> 1)"]
      o d3 strip_ex2 parse_line_ex2 by simp
  from r1 r2 r3 r4 r5 show ?thesis by blast
qed

section \<open>Properties of the record format\<close>

lemma dec_digits_are_digits: "c \<in> set (dec_digits n) \<Longrightarrow> 48 \<le> c \<and> c \<le> 57"
proof (induction n rule: dec_digits.induct)
  case (1 n)
  show ?case
  proof (cases "n < 10")
    case True
    then show ?thesis using "1.prems" by (simp add: dec_digits.simps [of n])
  next
    case False
    have "n mod 10 < 10" by simp
    then have "48 + n mod 10 \<le> 57" by linarith
    then show ?thesis using False "1.prems" "1.IH"
      by (auto simp: dec_digits.simps [of n])
  qed
qed

lemma length_dec_digits: "n < 10 ^ k \<Longrightarrow> 0 < k \<Longrightarrow> length (dec_digits n) \<le> k"
proof (induction n arbitrary: k rule: dec_digits.induct)
  case (1 n)
  show ?case
  proof (cases "n < 10")
    case True
    then show ?thesis using "1.prems" by (simp add: dec_digits.simps [of n])
  next
    case False
    then obtain k' where k: "k = Suc k'" using "1.prems" by (cases k) auto
    have "k' \<noteq> 0" using False "1.prems" k by (cases k') auto
    moreover have "n div 10 < 10 ^ k'" using "1.prems" k by (simp add: less_mult_imp_div_less mult.commute)
    ultimately have "length (dec_digits (n div 10)) \<le> k'" using "1.IH" [OF False] by simp
    then show ?thesis using False k by (simp add: dec_digits.simps [of n])
  qed
qed

lemma length_zpad: "n < 10 ^ w \<Longrightarrow> 0 < w \<Longrightarrow> length (zpad w n) = w"
  using length_dec_digits [of n w] by (simp add: zpad_def)

lemma zpad_are_digits: "c \<in> set (zpad w n) \<Longrightarrow> 48 \<le> c \<and> c \<le> 57"
  using dec_digits_are_digits [of c n] by (auto simp: zpad_def)

lemma replace_Nil: "old \<noteq> [] \<Longrightarrow> replace old new [] = []"
  by (subst replace.simps) simp

lemma replace_match: "old \<noteq> [] \<Longrightarrow> replace old new (old @ s) = new @ replace old new s"
  by (subst replace.simps) simp

lemma replace_skip:
  "old \<noteq> [] \<Longrightarrow> take (length old) (c # s) \<noteq> old \<Longrightarrow>
   replace old new (c # s) = c # replace old new s"
  by (subst replace.simps) simp

lemma replace_utc_suffix:
  "43 \<notin> set xs \<Longrightarrow> replace (lit ''+00:00'') (lit ''Z'') (xs @ lit ''+00:00'') = xs @ lit ''Z''"
proof (induction xs)
  case Nil
  have "replace (lit ''+00:00'') (lit ''Z'') (lit ''+00:00'' @ []) =
        lit ''Z'' @ replace (lit ''+00:00'') (lit ''Z'') []"
    by (rule replace_match) simp
  then show ?case by (simp add: replace_Nil)
next
  case (Cons x xs)
  then have x: "x \<noteq> 43" by auto
  have "replace (lit ''+00:00'') (lit ''Z'') (x # (xs @ lit ''+00:00'')) =
        x # replace (lit ''+00:00'') (lit ''Z'') (xs @ lit ''+00:00'')"
    by (rule replace_skip) (use x in auto)
  then show ?case using Cons by simp
qed

lemma now_iso_utc_shape:
  "now_iso_utc t =
     zpad 4 (year t) @ [45] @ zpad 2 (month t) @ [45] @ zpad 2 (day t) @ [84] @
     zpad 2 (hour t) @ [58] @ zpad 2 (minute t) @ [58] @ zpad 2 (second t) @
     (if microsecond t \<noteq> 0 then [46] @ zpad 6 (microsecond t) else []) @ lit ''Z''"
proof -
  define pre where "pre =
     zpad 4 (year t) @ [45] @ zpad 2 (month t) @ [45] @ zpad 2 (day t) @ [84] @
     zpad 2 (hour t) @ [58] @ zpad 2 (minute t) @ [58] @ zpad 2 (second t) @
     (if microsecond t \<noteq> 0 then [46] @ zpad 6 (microsecond t) else [])"
  have "43 \<notin> set pre"
    unfolding pre_def using zpad_are_digits [of 43] by auto
  then have "replace (lit ''+00:00'') (lit ''Z'') (pre @ lit ''+00:00'') = pre @ lit ''Z''"
    by (rule replace_utc_suffix)
  moreover have "isoformat t = pre @ lit ''+00:00''"
    by (simp add: isoformat_def pre_def)
  ultimately show ?thesis by (simp add: now_iso_utc_def pre_def)
qed

lemma concat_escape_plain:
  "\<forall>c \<in> set s. 32 \<le> c \<and> c \<le> 126 \<and> c \<noteq> 34 \<and> c \<noteq> 92 \<Longrightarrow> concat (map escape_char s) = s"
  by (induction s) (simp_all add: escape_char_def)

lemma json_quote_plain:
  "\<forall>c \<in> set s. 32 \<le> c \<and> c \<le> 126 \<and> c \<noteq> 34 \<and> c \<noteq> 92 \<Longrightarrow> json_quote s = [34] @ s @ [34]"
  by (simp add: json_quote_def concat_escape_plain)

lemma zpad_plain:
  "c \<in> set (zpad w n) \<Longrightarrow> 32 \<le> c \<and> c \<le> 126 \<and> c \<noteq> 34 \<and> c \<noteq> 92"
  using zpad_are_digits [of c w n] by arith

lemma now_iso_utc_plain:
  "c \<in> set (now_iso_utc t) \<Longrightarrow> 32 \<le> c \<and> c \<le> 126 \<and> c \<noteq> 34 \<and> c \<noteq> 92"
  unfolding now_iso_utc_shape
  by (auto split: if_splits dest: zpad_plain)

lemma hex_digit_ge: "48 \<le> hex_digit n"
  by (simp add: hex_digit_def)

lemma escape_char_no_newline: "10 \<notin> set (escape_char c)"
proof -
  have "\<And>n. hex_digit n \<noteq> 10"
  proof -
    fix n show "hex_digit n \<noteq> 10" using hex_digit_ge [of n] by arith
  qed
  then show ?thesis by (auto simp: escape_char_def hex4_def)
qed

lemma show_int_no_newline: "10 \<notin> set (show_int i)"
  using dec_digits_are_digits [of 10] by (auto simp: show_int_def)

lemma json_quote_no_newline: "10 \<notin> set (json_quote s)"
  using escape_char_no_newline by (auto simp: json_quote_def)

lemma pin_field_no_newline: "10 \<notin> set (json_dumps (pin_json v))"
  using show_int_no_newline by (cases v) (simp_all add: pin_json_def)

lemma pin_field_text:
  "json_dumps (pin_json v) = (case v of None \<Rightarrow> lit ''null'' | Some i \<Rightarrow> show_int i)"
  by (cases v) (simp_all add: pin_json_def)

lemma sample_line_text:
  \<open>sample_line e st ts =
     lit ''{"ts_utc":'' @ json_quote (stamp e ts) @
     lit '',"d4":'' @ json_dumps (pin_json (d4 st)) @
     lit '',"d5":'' @ json_dumps (pin_json (d5 st)) @
     lit '',"d6":'' @ json_dumps (pin_json (d6 st)) @
     lit '',"d7":'' @ json_dumps (pin_json (d7 st)) @ lit ''}'' @ [10]\<close>
  by (simp add: sample_line_def sample_rec_def json_quote_def escape_char_def)

lemma write_sample_appends:
  "fh lg \<Longrightarrow> write_err e = None \<Longrightarrow>
   \<exists>x lg' tl. write_sample e st ts (lg, f) = (x, lg', f @ Wrote (sample_line e st ts) # tl) \<and>
              (tl = [] \<or> tl = [Flushed])"
  by (cases "flush_err e") (simp_all add: write_sample_def Let_def)

text \<open>
  C3, as the code has it. A \<open>write_sample\<close> on an open logger whose \<open>write\<close> does not
  raise appends exactly one text to the file (followed at most by a forced flush): the
  compact JSON object with the keys \<open>ts_utc\<close>, \<open>d4\<close>, \<open>d5\<close>, \<open>d6\<close>, \<open>d7\<close> in this order and
  one newline, at the end. A pin field is \<open>null\<close> when the pin is absent from the sample
  and otherwise the decimal text of the sample's integer for that pin, whatever integer
  it is (\<open>0\<close> and \<open>1\<close> for the values 0 and 1). When the timestamp is assigned by the
  logger it is written unescaped as \<open>YYYY-MM-DDTHH:MM:SS.ffffffZ\<close>, the fraction being left
  out when the microsecond field of the clock reading is zero; the widths are those of a
  valid clock reading.
\<close>

theorem write_sample_record_format:
  \<open>(fh lg \<and> write_err e = None \<longrightarrow>
      (\<exists>x lg' tl. write_sample e st ts (lg, f) = (x, lg', f @ Wrote (sample_line e st ts) # tl) \<and>
                 (tl = [] \<or> tl = [Flushed])))
   \<and> sample_line e st ts =
       lit ''{"ts_utc":'' @ json_quote (stamp e ts) @
       lit '',"d4":'' @ (case d4 st of None \<Rightarrow> lit ''null'' | Some i \<Rightarrow> show_int i) @
       lit '',"d5":'' @ (case d5 st of None \<Rightarrow> lit ''null'' | Some i \<Rightarrow> show_int i) @
       lit '',"d6":'' @ (case d6 st of None \<Rightarrow> lit ''null'' | Some i \<Rightarrow> show_int i) @
       lit '',"d7":'' @ (case d7 st of None \<Rightarrow> lit ''null'' | Some i \<Rightarrow> show_int i) @
       lit ''}'' @ [10]
   \<and> 10 \<notin> set (butlast (sample_line e st ts))
   \<and> show_int 0 = lit ''0'' \<and> show_int 1 = lit ''1''
   \<and> (ts = None \<or> ts = Some [] \<longrightarrow>
        stamp e ts = now_iso_utc (utc_now e) \<and>
        json_quote (stamp e ts) = [34] @ now_iso_utc (utc_now e) @ [34])
   \<and> now_iso_utc (utc_now e) =
        zpad 4 (year (utc_now e)) @ lit ''-'' @ zpad 2 (month (utc_now e)) @ lit ''-'' @
        zpad 2 (day (utc_now e)) @ lit ''T'' @ zpad 2 (hour (utc_now e)) @ lit '':'' @
        zpad 2 (minute (utc_now e)) @ lit '':'' @ zpad 2 (second (utc_now e)) @
        (if microsecond (utc_now e) \<noteq> 0 then lit ''.'' @ zpad 6 (microsecond (utc_now e))
         else []) @ lit ''Z''
   \<and> (valid_datetime (utc_now e) \<longrightarrow>
        length (zpad 4 (year (utc_now e))) = 4 \<and> length (zpad 2 (month (utc_now e))) = 2 \<and>
        length (zpad 2 (day (utc_now e))) = 2 \<and> length (zpad 2 (hour (utc_now e))) = 2 \<and>
        length (zpad 2 (minute (utc_now e))) = 2 \<and> length (zpad 2 (second (utc_now e))) = 2 \<and>
        length (zpad 6 (microsecond (utc_now e))) = 6)
   \<and> (\<forall>w n. \<forall>c \<in> set (zpad w n). is_digit c)\<close>
proof (intro conjI)
  show "fh lg \<and> write_err e = None \<longrightarrow>
      (\<exists>x lg' tl. write_sample e st ts (lg, f) = (x, lg', f @ Wrote (sample_line e st ts) # tl) \<and>
                 (tl = [] \<or> tl = [Flushed]))"
    using write_sample_appends by blast
  show \<open>sample_line e st ts =
       lit ''{"ts_utc":'' @ json_quote (stamp e ts) @
       lit '',"d4":'' @ (case d4 st of None \<Rightarrow> lit ''null'' | Some i \<Rightarrow> show_int i) @
       lit '',"d5":'' @ (case d5 st of None \<Rightarrow> lit ''null'' | Some i \<Rightarrow> show_int i) @
       lit '',"d6":'' @ (case d6 st of None \<Rightarrow> lit ''null'' | Some i \<Rightarrow> show_int i) @
       lit '',"d7":'' @ (case d7 st of None \<Rightarrow> lit ''null'' | Some i \<Rightarrow> show_int i) @
       lit ''}'' @ [10]\<close>
    unfolding sample_line_text pin_field_text ..
  show "10 \<notin> set (butlast (sample_line e st ts))"
    unfolding sample_line_text
    using json_quote_no_newline [of "stamp e ts"] pin_field_no_newline
    by (simp add: butlast_append)
  show "show_int 0 = lit ''0''" and "show_int 1 = lit ''1''"
    by (simp_all add: show_int_def dec_digits.simps)
  show "ts = None \<or> ts = Some [] \<longrightarrow>
        stamp e ts = now_iso_utc (utc_now e) \<and>
        json_quote (stamp e ts) = [34] @ now_iso_utc (utc_now e) @ [34]"
    using json_quote_plain [of "now_iso_utc (utc_now e)"] now_iso_utc_plain [of _ "utc_now e"]
    by (auto simp: stamp_def)
  show "now_iso_utc (utc_now e) =
        zpad 4 (year (utc_now e)) @ lit ''-'' @ zpad 2 (month (utc_now e)) @ lit ''-'' @
        zpad 2 (day (utc_now e)) @ lit ''T'' @ zpad 2 (hour (utc_now e)) @ lit '':'' @
        zpad 2 (minute (utc_now e)) @ lit '':'' @ zpad 2 (second (utc_now e)) @
        (if microsecond (utc_now e) \<noteq> 0 then lit ''.'' @ zpad 6 (microsecond (utc_now e))
         else []) @ lit ''Z''"
    unfolding now_iso_utc_shape by simp
  show "valid_datetime (utc_now e) \<longrightarrow>
        length (zpad 4 (year (utc_now e))) = 4 \<and> length (zpad 2 (month (utc_now e))) = 2 \<and>
        length (zpad 2 (day (utc_now e))) = 2 \<and> length (zpad 2 (hour (utc_now e))) = 2 \<and>
        length (zpad 2 (minute (utc_now e))) = 2 \<and> length (zpad 2 (second (utc_now e))) = 2 \<and>
        length (zpad 6 (microsecond (utc_now e))) = 6"
    by (simp add: valid_datetime_def length_zpad)
  show "\<forall>w n. \<forall>c \<in> set (zpad w n). is_digit c"
    using zpad_are_digits by (simp add: is_digit_def)
qed

lemma sample_line_ex1:
  \<open>sample_line
      (quiet_env 0 \<lparr>year = 2026, month = 1, day = 13, hour = 4, minute = 32, second = 10,
                    microsecond = 0\<rparr> (Inr []))
      \<lparr>states = Map.empty(4 \<mapsto> 2)\<rparr> None =
    lit ''{"ts_utc":"2026-01-13T04:32:10Z","d4":2,"d5":null,"d6":null,"d7":null}'' @ [10]\<close>
  by (simp add: sample_line_text stamp_def now_iso_utc_shape quiet_env_def zpad_def
      dec_digits.simps show_int_def pin_json_def d4_def d5_def d6_def d7_def json_quote_def
      escape_char_def)

lemma sample_line_ex2:
  \<open>sample_line
      (quiet_env 0 \<lparr>year = 2026, month = 1, day = 13, hour = 4, minute = 32, second = 10,
                    microsecond = 123456\<rparr> (Inr []))
      \<lparr>states = Map.empty(4 \<mapsto> 1, 5 \<mapsto> 0, 6 \<mapsto> 1, 7 \<mapsto> 0)\<rparr> None =
    lit ''{"ts_utc":"2026-01-13T04:32:10.123456Z","d4":1,"d5":0,"d6":1,"d7":0}'' @ [10]\<close>
  by (simp add: sample_line_text stamp_def now_iso_utc_shape quiet_env_def zpad_def
      dec_digits.simps show_int_def pin_json_def d4_def d5_def d6_def d7_def json_quote_def
      escape_char_def)

lemma parse_line_ex3: "parse_line ascii_rt (lit ''4,2'') = Inr (Map.empty(4 \<mapsto> 2))"
  by (simp add: parse_line_def parts_def strip_def py_isspace_def py_int_digit)

theorem write_sample_record_format_counterexample:
  \<open>read_states ascii_rt
      \<lparr>mon_port = lit ''COM3'', mon_baud = 115200, ser = Some \<lparr>is_open = True\<rparr>\<rparr>
      (Inr (lit ''4,2'' @ [10])) = Inr (Some \<lparr>states = Map.empty(4 \<mapsto> 2)\<rparr>)
   \<and> write_sample
      (quiet_env 0 \<lparr>year = 2026, month = 1, day = 13, hour = 4, minute = 32, second = 10,
                    microsecond = 0\<rparr> (Inr []))
      \<lparr>states = Map.empty(4 \<mapsto> 2)\<rparr> None
      (\<lparr>cfg = \<lparr>path = lit ''pin_samples.ndjson'', flush_every = 1\<rparr>, fh = True,
        count_since_flush = 0\<rparr>, []) =
     (None,
      \<lparr>cfg = \<lparr>path = lit ''pin_samples.ndjson'', flush_every = 1\<rparr>, fh = True,
        count_since_flush = 0\<rparr>,
      [Wrote (lit ''{"ts_utc":"2026-01-13T04:32:10Z","d4":2,"d5":null,"d6":null,"d7":null}''
                @ [10]), Flushed])\<close>
proof -
  have "strip (utf8_replace ascii_rt (lit ''4,2'' @ [10])) = lit ''4,2''"
    by (simp add: ascii_rt_def strip_def py_isspace_def)
  then have a: "read_states ascii_rt
      \<lparr>mon_port = lit ''COM3'', mon_baud = 115200, ser = Some \<lparr>is_open = True\<rparr>\<rparr>
      (Inr (lit ''4,2'' @ [10])) = Inr (Some \<lparr>states = Map.empty(4 \<mapsto> 2)\<rparr>)"
    using parse_line_ex3 by (simp add: read_states_def mon_is_open_def)
  have b: \<open>write_sample
      (quiet_env 0 \<lparr>year = 2026, month = 1, day = 13, hour = 4, minute = 32, second = 10,
                    microsecond = 0\<rparr> (Inr []))
      \<lparr>states = Map.empty(4 \<mapsto> 2)\<rparr> None
      (\<lparr>cfg = \<lparr>path = lit ''pin_samples.ndjson'', flush_every = 1\<rparr>, fh = True,
        count_since_flush = 0\<rparr>, []) =
     (None,
      \<lparr>cfg = \<lparr>path = lit ''pin_samples.ndjson'', flush_every = 1\<rparr>, fh = True,
        count_since_flush = 0\<rparr>,
      [Wrote (lit ''{"ts_utc":"2026-01-13T04:32:10Z","d4":2,"d5":null,"d6":null,"d7":null}''
                @ [10]), Flushed])\<close>
    unfolding write_sample_def sample_line_ex1 by (simp add: quiet_env_def)
  from a b show ?thesis by (rule conjI)
qed

theorem write_sample_record_format_witness:
  \<open>\<exists>x lg' tl.
     write_sample
       (quiet_env 0 \<lparr>year = 2026, month = 1, day = 13, hour = 4, minute = 32, second = 10,
                     microsecond = 123456\<rparr> (Inr []))
       \<lparr>states = Map.empty(4 \<mapsto> 1, 5 \<mapsto> 0, 6 \<mapsto> 1, 7 \<mapsto> 0)\<rparr> None
       (\<lparr>cfg = \<lparr>path = lit ''pin_samples.ndjson'', flush_every = 1\<rparr>, fh = True,
         count_since_flush = 0\<rparr>, []) =
     (x, lg',
      Wrote (lit ''{"ts_utc":"2026-01-13T04:32:10.123456Z","d4":1,"d5":0,"d6":1,"d7":0}''
               @ [10]) # tl)
     \<and> (tl = [] \<or> tl = [Flushed])
     \<and> length (zpad 6 123456) = 6 \<and> (\<forall>c \<in> set (zpad 2 4). is_digit c)\<close>
proof -
  let ?e = "quiet_env 0 \<lparr>year = 2026, month = 1, day = 13, hour = 4, minute = 32, second = 10,
                     microsecond = 123456\<rparr> (Inr [])"
  let ?st = "\<lparr>states = Map.empty(4 \<mapsto> 1, 5 \<mapsto> 0, 6 \<mapsto> 1, 7 \<mapsto> (0::int))\<rparr>"
  let ?lg = "\<lparr>cfg = \<lparr>path = lit ''pin_samples.ndjson'', flush_every = 1\<rparr>, fh = True,
         count_since_flush = 0\<rparr>"
  have h1: "fh ?lg \<and> write_err ?e = None" by (simp add: quiet_env_def)
  have h2: "valid_datetime (utc_now ?e)" by (simp add: quiet_env_def valid_datetime_def)
  have u: "microsecond (utc_now ?e) = 123456" by (simp add: quiet_env_def)
  note T = write_sample_record_format [of ?lg ?e ?st None "[]"]
  from T h1 have "\<exists>x lg' tl. write_sample ?e ?st None (?lg, []) =
      (x, lg', [] @ Wrote (sample_line ?e ?st None) # tl) \<and> (tl = [] \<or> tl = [Flushed])"
    by blast
  moreover from T h2 have "length (zpad 6 (microsecond (utc_now ?e))) = 6" by blast
  moreover from T have "\<forall>c \<in> set (zpad 2 4). is_digit c" by blast
  ultimately show ?thesis unfolding sample_line_ex2 u by simp
qed

section \<open>Properties of the flush cadence\<close>

lemma cadence_Nil: "cadence N k [] = []"
  by (simp add: cadence_def)

lemma cadence_Cons:
  "cadence N k (l # ls) =
     Wrote l # (if 0 < N \<and> int (Suc k) mod N = 0 then [Flushed] else []) @ cadence N (Suc k) ls"
  by (simp add: cadence_def)

lemma count_step_flush:
  fixes N :: int
  assumes "0 < N"
  shows "N \<le> int k mod N + 1 \<longleftrightarrow> int (Suc k) mod N = 0"
proof -
  have b: "0 \<le> int k mod N" "int k mod N < N" using assms by simp_all
  have "int (Suc k) = int k + 1" by simp
  then have e: "int (Suc k) mod N = (int k mod N + 1) mod N"
    by (simp only: mod_add_left_eq)
  show ?thesis
  proof
    assume "N \<le> int k mod N + 1"
    then have "int k mod N + 1 = N" using b by linarith
    then show "int (Suc k) mod N = 0" using e by simp
  next
    assume z: "int (Suc k) mod N = 0"
    show "N \<le> int k mod N + 1"
    proof (rule ccontr)
      assume "\<not> N \<le> int k mod N + 1"
      then have "int k mod N + 1 < N" by simp
      then have "(int k mod N + 1) mod N = int k mod N + 1" using b by simp
      then show False using z e b by linarith
    qed
  qed
qed

lemma count_step_keep:
  fixes N :: int
  assumes "0 < N" "\<not> N \<le> int k mod N + 1"
  shows "int (Suc k) mod N = int k mod N + 1"
proof -
  have b: "0 \<le> int k mod N" using assms by simp
  have "int (Suc k) = int k + 1" by simp
  then have "int (Suc k) mod N = (int k mod N + 1) mod N"
    by (simp only: mod_add_left_eq)
  also have "\<dots> = int k mod N + 1" using assms b by simp
  finally show ?thesis .
qed

lemma write_sample_ok:
  assumes "fh lg" "flush_err e = None" "write_err e = None"
  shows "write_sample e st ts (lg, f) =
         (if 0 < flush_every (cfg lg) \<and> flush_every (cfg lg) \<le> count_since_flush lg + 1
          then (None, lg\<lparr>count_since_flush := 0\<rparr>, f @ [Wrote (sample_line e st ts), Flushed])
          else (None, lg\<lparr>count_since_flush := count_since_flush lg + 1\<rparr>,
                f @ [Wrote (sample_line e st ts)]))"
  using assms by (simp add: write_sample_def Let_def)

lemma write_sample_step:
  assumes "fh lg" "flush_err e = None" "write_err e = None"
    and c: "count_since_flush lg = count_after (flush_every (cfg lg)) k"
  shows "snd (write_sample e st ts (lg, f)) =
         (lg\<lparr>count_since_flush := count_after (flush_every (cfg lg)) (Suc k)\<rparr>,
          f @ cadence (flush_every (cfg lg)) k [sample_line e st ts])"
proof -
  define N where "N = flush_every (cfg lg)"
  note ok = write_sample_ok [OF assms(1-3), of st ts f, folded N_def]
  show ?thesis
  proof (cases "0 < N")
    case True
    note N = this
    have cnt: "count_since_flush lg = int k mod N" using c N by (simp add: count_after_def N_def)
    show ?thesis
    proof (cases "N \<le> int k mod N + 1")
      case True
      then have z: "int (Suc k) mod N = 0"
        unfolding count_step_flush [OF N, of k] .
      have 1: "count_after N (Suc k) = 0" using N z by (simp only: count_after_def if_True)
      have 2: "cadence N k [sample_line e st ts] = [Wrote (sample_line e st ts), Flushed]"
        unfolding cadence_Cons cadence_Nil using N z by simp
      have cond: "0 < N \<and> N \<le> int k mod N + 1" using N True by blast
      have "write_sample e st ts (lg, f) =
            (None, lg\<lparr>count_since_flush := 0\<rparr>, f @ [Wrote (sample_line e st ts), Flushed])"
        unfolding ok cnt if_P [OF cond] ..
      then show ?thesis unfolding N_def [symmetric] 1 2 by simp
    next
      case False
      have a: "int (Suc k) mod N = int k mod N + 1"
        using count_step_keep [OF N False] .
      have nz: "int (Suc k) mod N \<noteq> 0"
        using False unfolding count_step_flush [OF N, of k] .
      have 1: "count_after N (Suc k) = int k mod N + 1"
        using N a by (simp only: count_after_def if_True)
      have cond2: "\<not> (0 < N \<and> int (Suc k) mod N = 0)" using nz by blast
      have 2: "cadence N k [sample_line e st ts] = [Wrote (sample_line e st ts)]"
        unfolding cadence_Cons cadence_Nil if_not_P [OF cond2] by simp
      have cond: "\<not> (0 < N \<and> N \<le> int k mod N + 1)" using False by blast
      have "write_sample e st ts (lg, f) =
            (None, lg\<lparr>count_since_flush := int k mod N + 1\<rparr>, f @ [Wrote (sample_line e st ts)])"
        unfolding ok cnt if_not_P [OF cond] ..
      then show ?thesis unfolding N_def [symmetric] 1 2 by simp
    qed
  next
    case False
    have cnt: "count_since_flush lg = int k"
      using c unfolding N_def [symmetric] count_after_def if_not_P [OF False] .
    have 1: "count_after N (Suc k) = int k + 1"
      unfolding count_after_def if_not_P [OF False] by simp
    have cond2: "\<not> (0 < N \<and> int (Suc k) mod N = 0)" using False by blast
    have 2: "cadence N k [sample_line e st ts] = [Wrote (sample_line e st ts)]"
      unfolding cadence_Cons cadence_Nil if_not_P [OF cond2] by simp
    have cond: "\<not> (0 < N \<and> N \<le> int k + 1)" using False by blast
    have "write_sample e st ts (lg, f) =
          (None, lg\<lparr>count_since_flush := int k + 1\<rparr>, f @ [Wrote (sample_line e st ts)])"
      unfolding ok cnt if_not_P [OF cond] ..
    then show ?thesis unfolding N_def [symmetric] 1 2 by simp
  qed
qed

lemma write_sample_step_failed:
  assumes "fh lg" "write_err e = Some msg"
  shows "snd (write_sample e st ts (lg, f)) = (lg, f)"
  using assms by (simp add: write_sample_def)

lemma cadence_append:
  "cadence N k (xs @ ys) = cadence N k xs @ cadence N (k + length xs) ys"
proof (induction xs arbitrary: k)
  case Nil
  then show ?case by (simp add: cadence_Nil)
next
  case (Cons x xs)
  show ?case using Cons [of "Suc k"] by (simp add: cadence_Cons)
qed

lemma write_samples_cadence:
  assumes "fh lg" "\<forall>c \<in> set calls. flush_err (fst c) = None"
    and "count_since_flush lg = count_after (flush_every (cfg lg)) k"
  shows "write_samples calls (lg, f) =
         (lg\<lparr>count_since_flush :=
               count_after (flush_every (cfg lg)) (k + length (written_lines calls))\<rparr>,
          f @ cadence (flush_every (cfg lg)) k (written_lines calls))"
  using assms
proof (induction calls arbitrary: lg f k)
  case Nil
  then show ?case by (simp add: written_lines_def cadence_Nil)
next
  case (Cons c calls)
  obtain e st ts where c: "c = (e, st, ts)" by (cases c)
  have fl: "flush_err e = None" and rest: "\<forall>c \<in> set calls. flush_err (fst c) = None"
    using Cons.prems(2) c by simp_all
  show ?case
  proof (cases "write_err e")
    case None
    let ?lg1 = "lg\<lparr>count_since_flush := count_after (flush_every (cfg lg)) (Suc k)\<rparr>"
    let ?f1 = "f @ cadence (flush_every (cfg lg)) k [sample_line e st ts]"
    have s: "snd (write_sample e st ts (lg, f)) = (?lg1, ?f1)"
      using write_sample_step [OF Cons.prems(1) fl None Cons.prems(3)] .
    have wl: "written_lines ((e, st, ts) # calls) = sample_line e st ts # written_lines calls"
      using None by (simp add: written_lines_def)
    have e2: "cfg ?lg1 = cfg lg" by simp
    have ih: "write_samples calls (?lg1, ?f1) =
          (?lg1\<lparr>count_since_flush :=
               count_after (flush_every (cfg ?lg1)) (Suc k + length (written_lines calls))\<rparr>,
           ?f1 @ cadence (flush_every (cfg ?lg1)) (Suc k) (written_lines calls))"
    proof (rule Cons.IH)
      show "fh ?lg1" using Cons.prems(1) by simp
      show "\<forall>c \<in> set calls. flush_err (fst c) = None" by (rule rest)
      show "count_since_flush ?lg1 = count_after (flush_every (cfg ?lg1)) (Suc k)" by simp
    qed
    have e1: "?lg1\<lparr>count_since_flush :=
               count_after (flush_every (cfg lg)) (Suc k + length (written_lines calls))\<rparr> =
              lg\<lparr>count_since_flush :=
               count_after (flush_every (cfg lg))
                 (k + length (sample_line e st ts # written_lines calls))\<rparr>"
      by simp
    have e3: "cadence (flush_every (cfg lg)) k (sample_line e st ts # written_lines calls) =
              cadence (flush_every (cfg lg)) k [sample_line e st ts] @
              cadence (flush_every (cfg lg)) (Suc k) (written_lines calls)"
      using cadence_append [of "flush_every (cfg lg)" k "[sample_line e st ts]" "written_lines calls"]
      by simp
    show ?thesis unfolding c write_samples.simps s wl ih e2 e1 e3 by simp
  next
    case (Some msg)
    have s: "snd (write_sample e st ts (lg, f)) = (lg, f)"
      using write_sample_step_failed [OF Cons.prems(1) Some] .
    have wl: "written_lines ((e, st, ts) # calls) = written_lines calls"
      using Some by (simp add: written_lines_def)
    show ?thesis unfolding c write_samples.simps s wl
      using Cons.IH [OF Cons.prems(1) rest Cons.prems(3)] .
  qed
qed

lemma cadence_no_flush: "N \<le> 0 \<Longrightarrow> Flushed \<notin> set (cadence N k ls)"
proof (induction ls arbitrary: k)
  case Nil
  then show ?case by (simp add: cadence_Nil)
next
  case (Cons l ls)
  have c: "\<not> (0 < N \<and> int (Suc k) mod N = 0)" using Cons.prems by simp
  show ?case unfolding cadence_Cons if_not_P [OF c] using Cons.IH [OF Cons.prems] by simp
qed

lemma write_sample_open:
  assumes "fh lg" "write_err e = None"
  shows "write_sample e st ts (lg, f) =
         (if 0 < flush_every (cfg lg) \<and> flush_every (cfg lg) \<le> count_since_flush lg + 1
          then (case flush_err e of
                  Some msg \<Rightarrow>
                    (Some (OSError msg), lg\<lparr>count_since_flush := count_since_flush lg + 1\<rparr>,
                     f @ [Wrote (sample_line e st ts)])
                | None \<Rightarrow>
                    (None, lg\<lparr>count_since_flush := 0\<rparr>,
                     f @ [Wrote (sample_line e st ts), Flushed]))
          else (None, lg\<lparr>count_since_flush := count_since_flush lg + 1\<rparr>,
                f @ [Wrote (sample_line e st ts)]))"
  using assms by (simp add: write_sample_def Let_def split: option.splits)

lemma write_sample_flushed_resets:
  assumes "fh lg" "write_sample e st ts (lg, f) = (x, lg', f @ [Wrote l, Flushed])"
  shows "x = None \<and> count_since_flush lg' = 0"
proof (cases "write_err e")
  case (Some msg)
  then show ?thesis using assms by (simp add: write_sample_def)
next
  case None
  note W = this
  show ?thesis
  proof (cases "0 < flush_every (cfg lg) \<and> flush_every (cfg lg) \<le> count_since_flush lg + 1")
    case True
    show ?thesis
    proof (cases "flush_err e")
      case None
      have "write_sample e st ts (lg, f) =
            (None, lg\<lparr>count_since_flush := 0\<rparr>, f @ [Wrote (sample_line e st ts), Flushed])"
        unfolding write_sample_ok [OF assms(1) None W] if_P [OF True] ..
      then show ?thesis using assms(2) by simp
    next
      case (Some msg)
      then have "write_sample e st ts (lg, f) =
            (Some (OSError msg), lg\<lparr>count_since_flush := count_since_flush lg + 1\<rparr>,
             f @ [Wrote (sample_line e st ts)])"
        unfolding write_sample_open [OF assms(1) W] if_P [OF True] by simp
      then show ?thesis using assms(2) by simp
    qed
  next
    case False
    have "write_sample e st ts (lg, f) =
            (None, lg\<lparr>count_since_flush := count_since_flush lg + 1\<rparr>,
             f @ [Wrote (sample_line e st ts)])"
      unfolding write_sample_open [OF assms(1) W] if_not_P [OF False] ..
    then show ?thesis using assms(2) by simp
  qed
qed

text \<open>
  C4. Starting from an open logger whose counter is zero, with \<open>flush_every = N\<close> and
  flushes that do not fail: the calls whose write succeeds append their lines in order,
  the \<open>i\<close>-th of them (from 1) being followed by a forced flush exactly when \<open>N > 0\<close> and
  \<open>N\<close> divides \<open>i\<close> (this is \<open>cadence\<close>), and the counter ends at the number of writes
  since the last forced flush. \<open>close()\<close> of an open logger flushes and closes. With
  \<open>N \<le> 0\<close> the writes force no flush. A \<open>write_sample\<close> that forces a flush leaves the
  counter at zero.
\<close>

theorem flush_cadence:
  "(fh lg \<and> count_since_flush lg = 0 \<and> (\<forall>c \<in> set calls. flush_err (fst c) = None) \<longrightarrow>
      write_samples calls (lg, f) =
        (lg\<lparr>count_since_flush :=
              count_after (flush_every (cfg lg)) (length (written_lines calls))\<rparr>,
         f @ cadence (flush_every (cfg lg)) 0 (written_lines calls)))
   \<and> (fh lg \<and> flush_err e = None \<and> close_log_err e = None \<longrightarrow>
        log_close e (lg, f) = (None, lg\<lparr>fh := False\<rparr>, f @ [Flushed, Closed]))
   \<and> (flush_every (cfg lg) \<le> 0 \<longrightarrow> Flushed \<notin> set (cadence (flush_every (cfg lg)) k ls))
   \<and> (fh lg \<and> write_sample e st ts (lg, f) = (x, lg', f @ [Wrote l, Flushed]) \<longrightarrow>
        x = None \<and> count_since_flush lg' = 0)"
proof (intro conjI impI)
  assume a: "fh lg \<and> count_since_flush lg = 0 \<and> (\<forall>c \<in> set calls. flush_err (fst c) = None)"
  have "count_since_flush lg = count_after (flush_every (cfg lg)) 0"
    using a by (simp add: count_after_def)
  from write_samples_cadence [of lg calls 0 f, OF _ _ this] a
  show "write_samples calls (lg, f) =
        (lg\<lparr>count_since_flush :=
              count_after (flush_every (cfg lg)) (length (written_lines calls))\<rparr>,
         f @ cadence (flush_every (cfg lg)) 0 (written_lines calls))"
    by simp
next
  assume "fh lg \<and> flush_err e = None \<and> close_log_err e = None"
  then show "log_close e (lg, f) = (None, lg\<lparr>fh := False\<rparr>, f @ [Flushed, Closed])"
    by (simp add: log_close_def)
next
  assume "flush_every (cfg lg) \<le> 0"
  then show "Flushed \<notin> set (cadence (flush_every (cfg lg)) k ls)"
    by (rule cadence_no_flush)
next
  assume a: "fh lg \<and> write_sample e st ts (lg, f) = (x, lg', f @ [Wrote l, Flushed])"
  then show "x = None" and "count_since_flush lg' = 0"
    using write_sample_flushed_resets [of lg e st ts f x lg' l] by blast+
qed

theorem flush_cadence_witness:
  "write_samples
     [(quiet_env 0 clock1 (Inr []), \<lparr>states = Map.empty\<rparr>, None),
      (quiet_env 0 clock1 (Inr []), \<lparr>states = Map.empty\<rparr>, None),
      (quiet_env 0 clock1 (Inr []), \<lparr>states = Map.empty\<rparr>, None)]
     (\<lparr>cfg = \<lparr>path = lit ''p'', flush_every = 2\<rparr>, fh = True, count_since_flush = 0\<rparr>, []) =
   (\<lparr>cfg = \<lparr>path = lit ''p'', flush_every = 2\<rparr>, fh = True, count_since_flush = 1\<rparr>,
    [Wrote (sample_line (quiet_env 0 clock1 (Inr [])) \<lparr>states = Map.empty\<rparr> None),
     Wrote (sample_line (quiet_env 0 clock1 (Inr [])) \<lparr>states = Map.empty\<rparr> None),
     Flushed,
     Wrote (sample_line (quiet_env 0 clock1 (Inr [])) \<lparr>states = Map.empty\<rparr> None)])
   \<and> log_close (quiet_env 0 clock1 (Inr []))
       (\<lparr>cfg = \<lparr>path = lit ''p'', flush_every = 2\<rparr>, fh = True, count_since_flush = 1\<rparr>, []) =
     (None, \<lparr>cfg = \<lparr>path = lit ''p'', flush_every = 2\<rparr>, fh = False, count_since_flush = 1\<rparr>,
      [Flushed, Closed])
   \<and> Flushed \<notin> set (cadence 0 0 [lit ''a'', lit ''b''])"
proof -
  let ?e = "quiet_env 0 clock1 (Inr [])"
  let ?st = "\<lparr>states = Map.empty\<rparr> :: pin_states"
  let ?lga = "\<lparr>cfg = \<lparr>path = lit ''p'', flush_every = 2\<rparr>, fh = True, count_since_flush = 0\<rparr>"
  let ?lgb = "\<lparr>cfg = \<lparr>path = lit ''p'', flush_every = 2\<rparr>, fh = True, count_since_flush = 1\<rparr>"
  let ?lgz = "\<lparr>cfg = \<lparr>path = lit ''p'', flush_every = 0\<rparr>, fh = True, count_since_flush = 0\<rparr>"
  let ?calls = "[(?e, ?st, None), (?e, ?st, None), (?e, ?st, None)]"
  have h1: "fh ?lga \<and> count_since_flush ?lga = 0 \<and> (\<forall>c \<in> set ?calls. flush_err (fst c) = None)"
    by (simp add: quiet_env_def)
  have wl: "written_lines ?calls =
            [sample_line ?e ?st None, sample_line ?e ?st None, sample_line ?e ?st None]"
    by (simp add: written_lines_def quiet_env_def)
  have "write_samples ?calls (?lga, []) =
        (?lga\<lparr>count_since_flush := count_after (flush_every (cfg ?lga)) (length (written_lines ?calls))\<rparr>,
         [] @ cadence (flush_every (cfg ?lga)) 0 (written_lines ?calls))"
    using flush_cadence [of ?lga ?calls "[]"] h1 by blast
  then have a: "write_samples ?calls (?lga, []) =
        (?lgb, [Wrote (sample_line ?e ?st None), Wrote (sample_line ?e ?st None), Flushed,
                Wrote (sample_line ?e ?st None)])"
    unfolding wl by (simp add: count_after_def cadence_Cons cadence_Nil)
  have h2: "fh ?lgb \<and> flush_err ?e = None \<and> close_log_err ?e = None"
    by (simp add: quiet_env_def)
  have "log_close ?e (?lgb, []) = (None, ?lgb\<lparr>fh := False\<rparr>, [] @ [Flushed, Closed])"
    using flush_cadence [of ?lgb _ "[]" ?e] h2 by blast
  then have b: "log_close ?e (?lgb, []) =
      (None, \<lparr>cfg = \<lparr>path = lit ''p'', flush_every = 2\<rparr>, fh = False, count_since_flush = 1\<rparr>,
       [Flushed, Closed])"
    by simp
  have "flush_every (cfg ?lgz) \<le> 0" by simp
  then have "Flushed \<notin> set (cadence (flush_every (cfg ?lgz)) 0 [lit ''a'', lit ''b''])"
    using flush_cadence [of ?lgz _ _ _ 0 "[lit ''a'', lit ''b'']"] by blast
  then have c: "Flushed \<notin> set (cadence 0 0 [lit ''a'', lit ''b''])" by simp
  from a b c show ?thesis by blast
qed

section \<open>Properties of the acquisition service\<close>

lemma worker_step_no_thread: "thread s = None \<Longrightarrow> worker_step rt e s = s"
  by (simp add: worker_step_def)

lemma worker_step_Done: "thread s = Some w \<Longrightarrow> w_at w = Done \<Longrightarrow> worker_step rt e s = s"
  by (simp add: worker_step_def)

lemma worker_step_AtInit:
  "thread s = Some w \<Longrightarrow> w_at w = AtInit \<Longrightarrow>
   worker_step rt e s =
     s\<lparr> running := True, started_at := Some (time_now e), last_error := None,
        thread := Some (w\<lparr>w_at := AtOpenLog\<rparr>) \<rparr>"
  by (simp add: worker_step_def)

lemma worker_step_AtOpenLog:
  "thread s = Some w \<Longrightarrow> w_at w = AtOpenLog \<Longrightarrow>
   worker_step rt e s =
     (case log_open e (w_log w) of
        (None, l') \<Rightarrow> s\<lparr>thread := Some (w\<lparr>w_log := l', w_at := AtOpenSerial\<rparr>)\<rparr>
      | (Some x, l') \<Rightarrow> s\<lparr>thread := Some (w\<lparr>w_log := l', w_at := AtExcept x\<rparr>)\<rparr>)"
  by (simp add: worker_step_def)

lemma worker_step_AtOpenSerial:
  "thread s = Some w \<Longrightarrow> w_at w = AtOpenSerial \<Longrightarrow>
   worker_step rt e s =
     (case mon_open (open_ser_err e) (w_mon w) of
        Inr m' \<Rightarrow> s\<lparr>thread := Some (w\<lparr>w_mon := m', w_at := AtLoop\<rparr>)\<rparr>
      | Inl x \<Rightarrow> s\<lparr>thread := Some (w\<lparr>w_at := AtExcept x\<rparr>)\<rparr>)"
  by (simp add: worker_step_def)

lemma worker_step_AtLoop_stop:
  "thread s = Some w \<Longrightarrow> w_at w = AtLoop \<Longrightarrow> stop_ev s \<Longrightarrow>
   worker_step rt e s =
     (case mon_close (close_ser_err e) (w_mon w) of
        (None, m') \<Rightarrow> s\<lparr>thread := Some (w\<lparr>w_mon := m', w_at := AtFinally\<rparr>)\<rparr>
      | (Some x, m') \<Rightarrow> s\<lparr>thread := Some (w\<lparr>w_mon := m', w_at := AtExcept x\<rparr>)\<rparr>)"
  by (simp add: worker_step_def)

lemma worker_step_AtLoop_read:
  "thread s = Some w \<Longrightarrow> w_at w = AtLoop \<Longrightarrow> \<not> stop_ev s \<Longrightarrow>
   worker_step rt e s =
     (case read_states rt (w_mon w) (readline e) of
        Inl x \<Rightarrow>
          (case mon_close (close_ser_err e) (w_mon w) of
             (cx, m') \<Rightarrow>
               s\<lparr>thread := Some (w\<lparr>w_mon := m',
                      w_at := AtExcept (case cx of None \<Rightarrow> x | Some x2 \<Rightarrow> x2)\<rparr>)\<rparr>)
      | Inr None \<Rightarrow> s\<lparr>bad_reads := bad_reads s + 1\<rparr>
      | Inr (Some st) \<Rightarrow>
          s\<lparr> last_states := Some st, last_sample_at := Some (time_now e),
             thread := Some (w\<lparr>w_at := AtWrite st\<rparr>) \<rparr>)"
  by (simp add: worker_step_def)

lemma worker_step_AtWrite:
  "thread s = Some w \<Longrightarrow> w_at w = AtWrite st \<Longrightarrow>
   worker_step rt e s =
     (case write_sample e st None (w_log w, logfile s) of
        (None, l', f') \<Rightarrow>
          s\<lparr> samples_written := samples_written s + 1, logfile := f',
             thread := Some (w\<lparr>w_log := l', w_at := AtLoop\<rparr>) \<rparr>
      | (Some x, l', f') \<Rightarrow>
          set_error (lit ''JSON write error: '' @ exn_str x)
            (s\<lparr> logfile := f', thread := Some (w\<lparr>w_log := l', w_at := AtLoop\<rparr>) \<rparr>))"
  by (simp add: worker_step_def)

lemma worker_step_AtExcept:
  "thread s = Some w \<Longrightarrow> w_at w = AtExcept x \<Longrightarrow>
   worker_step rt e s =
     set_error (lit ''fatal: '' @ exn_str x) (s\<lparr>thread := Some (w\<lparr>w_at := AtFinally\<rparr>)\<rparr>)"
  by (simp add: worker_step_def)

lemma worker_step_AtFinally:
  "thread s = Some w \<Longrightarrow> w_at w = AtFinally \<Longrightarrow>
   worker_step rt e s =
     (case log_close e (w_log w, logfile s) of
        (cx, l', f') \<Rightarrow>
          s\<lparr> running := False, logfile := f',
             thread := Some (w\<lparr>w_log := l', w_at := Done\<rparr>) \<rparr>)"
  by (simp add: worker_step_def)

lemma worker_step_cache_inv:
  assumes "cache_inv s"
  shows "cache_inv (worker_step rt e s)"
proof (cases "thread s")
  case None
  then show ?thesis using assms by (simp add: worker_step_no_thread)
next
  case (Some w)
  note T = this
  show ?thesis
  proof (cases "w_at w")
    case AtInit
    show ?thesis unfolding worker_step_AtInit [OF T AtInit]
      using assms by (simp add: cache_inv_def)
  next
    case AtOpenLog
    show ?thesis unfolding worker_step_AtOpenLog [OF T AtOpenLog]
      using assms by (simp add: cache_inv_def split: prod.splits option.splits)
  next
    case AtOpenSerial
    show ?thesis unfolding worker_step_AtOpenSerial [OF T AtOpenSerial]
      using assms by (simp add: cache_inv_def split: sum.splits)
  next
    case AtLoop
    show ?thesis
    proof (cases "stop_ev s")
      case True
      show ?thesis unfolding worker_step_AtLoop_stop [OF T AtLoop True]
        using assms by (simp add: cache_inv_def split: prod.splits option.splits)
    next
      case False
      show ?thesis unfolding worker_step_AtLoop_read [OF T AtLoop False]
        using assms T AtLoop
        by (simp add: cache_inv_def split: prod.splits option.splits sum.splits)
    qed
  next
    case (AtWrite st)
    have c: "last_states s \<noteq> None \<and> last_sample_at s \<noteq> None"
      using assms T AtWrite by (simp add: cache_inv_def)
    have n: "0 \<le> samples_written s" using assms by (simp add: cache_inv_def)
    show ?thesis unfolding worker_step_AtWrite [OF T AtWrite]
      using c n by (simp add: cache_inv_def set_error_def split: prod.splits option.splits)
  next
    case (AtExcept x)
    show ?thesis unfolding worker_step_AtExcept [OF T AtExcept]
      using assms by (simp add: cache_inv_def set_error_def)
  next
    case AtFinally
    show ?thesis unfolding worker_step_AtFinally [OF T AtFinally]
      using assms by (simp add: cache_inv_def split: prod.splits)
  next
    case Done
    then show ?thesis using assms T by (simp add: worker_step_Done)
  qed
qed

lemma exec_cache_inv: "cache_inv s \<Longrightarrow> cache_inv (exec rt ev s)"
proof (cases ev)
  case (Worker e)
  assume "cache_inv s"
  then show ?thesis using Worker by (simp add: worker_step_cache_inv)
next
  case Start
  assume "cache_inv s"
  then show ?thesis using Start by (simp add: cache_inv_def start_def)
next
  case StopSignal
  assume "cache_inv s"
  then show ?thesis using StopSignal by (simp add: cache_inv_def stop_signal_def)
next
  case StopFinish
  assume "cache_inv s"
  then show ?thesis using StopFinish by (simp add: cache_inv_def stop_finish_def)
qed

lemma reachable_cache_inv: "reachable rt c f s \<Longrightarrow> cache_inv s"
proof (induction rule: reachable.induct)
  case init
  show ?case by (simp add: cache_inv_def PinLoggingService_def)
next
  case (step s ev)
  then show ?case by (simp add: exec_cache_inv)
qed

lemma reachable_run_worker:
  "reachable rt c f s \<Longrightarrow> reachable rt c f (run_worker rt es s)"
proof (induction es arbitrary: s)
  case Nil
  then show ?case by simp
next
  case (Cons e es)
  have "reachable rt c f (exec rt (Worker e) s)" using Cons.prems by (rule reachable.step)
  then show ?case using Cons.IH by simp
qed

lemma reachable_start: "reachable rt c f (start (PinLoggingService c f))"
  using reachable.step [OF reachable.init, of rt c f Start] by simp

text \<open>
  C7. In every state the service can reach (any interleaving of worker steps with
  \<open>start()\<close> and the two effects of \<open>stop()\<close>), a samples-written count of at least 1
  comes with the last-sample cache and its time already set. The snapshot of
  \<open>get_status()\<close> is computed from that one state: its count is the state's count and its
  pin fields are the cached sample's.
\<close>

theorem status_snapshot_consistent:
  "reachable rt c f s \<Longrightarrow>
     (1 \<le> samples_written s \<longrightarrow> last_states s \<noteq> None \<and> last_sample_at s \<noteq> None)
     \<and> st_samples_written (get_status now s) = samples_written s
     \<and> st_bad_reads (get_status now s) = bad_reads s
     \<and> st_last_error (get_status now s) = last_error s
     \<and> st_running (get_status now s) = is_running s
     \<and> (1 \<le> st_samples_written (get_status now s) \<longrightarrow>
          (\<exists>l t. last_states s = Some l \<and> last_sample_at s = Some t \<and>
                 st_d4 (get_status now s) = d4 l \<and> st_d5 (get_status now s) = d5 l \<and>
                 st_d6 (get_status now s) = d6 l \<and> st_d7 (get_status now s) = d7 l \<and>
                 st_last_sample_age_s (get_status now s) =
                   (if t = 0 then None else Some (now - t))))"
proof -
  assume "reachable rt c f s"
  then have inv: "cache_inv s" by (rule reachable_cache_inv)
  have a: "1 \<le> samples_written s \<longrightarrow> last_states s \<noteq> None \<and> last_sample_at s \<noteq> None"
    using inv by (simp add: cache_inv_def)
  have b: "1 \<le> st_samples_written (get_status now s) \<longrightarrow>
          (\<exists>l t. last_states s = Some l \<and> last_sample_at s = Some t \<and>
                 st_d4 (get_status now s) = d4 l \<and> st_d5 (get_status now s) = d5 l \<and>
                 st_d6 (get_status now s) = d6 l \<and> st_d7 (get_status now s) = d7 l \<and>
                 st_last_sample_age_s (get_status now s) =
                   (if t = 0 then None else Some (now - t)))"
  proof
    assume "1 \<le> st_samples_written (get_status now s)"
    then have "1 \<le> samples_written s" by (simp add: get_status_def)
    then obtain l t where "last_states s = Some l" "last_sample_at s = Some t"
      using a by auto
    then show "\<exists>l t. last_states s = Some l \<and> last_sample_at s = Some t \<and>
                 st_d4 (get_status now s) = d4 l \<and> st_d5 (get_status now s) = d5 l \<and>
                 st_d6 (get_status now s) = d6 l \<and> st_d7 (get_status now s) = d7 l \<and>
                 st_last_sample_age_s (get_status now s) =
                   (if t = 0 then None else Some (now - t))"
      by (simp add: get_status_def since_def)
  qed
  show ?thesis using a b by (simp add: get_status_def)
qed

lemmas service_eval =
  worker_step_def start_def PinLoggingService_def is_running_def PinSampleJSONLogger_def
  ArduinoPinMonitor_def main_cfg_def quiet_env_def log_open_def mon_open_def mon_is_open_def
  mon_close_def log_close_def set_error_def

lemma main_at_loop:
  "run_worker rt [quiet_env t1 k1 r1, quiet_env t2 k2 r2, quiet_env t3 k3 r3]
     (start (PinLoggingService main_cfg f)) =
   \<lparr> scfg = main_cfg, stop_ev = False,
     thread = Some \<lparr> w_at = AtLoop,
                     w_log = \<lparr>cfg = \<lparr>path = lit ''pin_samples.ndjson'', flush_every = 1\<rparr>,
                              fh = True, count_since_flush = 0\<rparr>,
                     w_mon = \<lparr>mon_port = lit ''COM3'', mon_baud = 115200,
                              ser = Some \<lparr>is_open = True\<rparr>\<rparr> \<rparr>,
     running = True, started_at = Some t1, last_sample_at = None, last_states = None,
     samples_written = 0, bad_reads = 0, last_error = None, logfile = f, spawned = 1 \<rparr>"
  by (simp add: service_eval)

lemma run_worker_append:
  "run_worker rt (xs @ ys) s = run_worker rt ys (run_worker rt xs s)"
  by (induction xs arbitrary: s) simp_all

lemma main_reaches_loop:
  "run_worker rt [quiet_env 1 k1 r1, quiet_env t2 k2 r2, quiet_env t3 k3 r3]
     (start (PinLoggingService main_cfg f)) = loop_state f"
  unfolding main_at_loop by (simp add: loop_state_def)

lemma read_states_ex41:
  "read_states ascii_rt
     \<lparr>mon_port = lit ''COM3'', mon_baud = 115200, ser = Some \<lparr>is_open = True\<rparr>\<rparr>
     (Inr (lit ''4,1'' @ [10])) = Inr (Some \<lparr>states = Map.empty(4 \<mapsto> 1)\<rparr>)"
proof -
  have "strip (utf8_replace ascii_rt (lit ''4,1'' @ [10])) = lit ''4,1''"
    by (simp add: ascii_rt_def strip_def py_isspace_def)
  then show ?thesis using parse_line_ex2 by (simp add: read_states_def mon_is_open_def)
qed

lemma loop_reads_41:
  "worker_step ascii_rt (quiet_env 5 clock1 (Inr (lit ''4,1'' @ [10]))) (loop_state f) =
   (loop_state f)\<lparr> last_states := Some \<lparr>states = Map.empty(4 \<mapsto> 1)\<rparr>,
       last_sample_at := Some 5,
       thread := Some \<lparr> w_at = AtWrite \<lparr>states = Map.empty(4 \<mapsto> 1)\<rparr>,
                     w_log = \<lparr>cfg = \<lparr>path = lit ''pin_samples.ndjson'', flush_every = 1\<rparr>,
                              fh = True, count_since_flush = 0\<rparr>,
                     w_mon = \<lparr>mon_port = lit ''COM3'', mon_baud = 115200,
                              ser = Some \<lparr>is_open = True\<rparr>\<rparr> \<rparr>\<rparr>"
  by (simp add: loop_state_def worker_step_def read_states_ex41 [simplified] quiet_env_def
      main_cfg_def)

lemma loop_writes_41:
  "worker_step ascii_rt (quiet_env 6 clock1 (Inr []))
   ((loop_state f)\<lparr> last_states := Some \<lparr>states = Map.empty(4 \<mapsto> 1)\<rparr>,
       last_sample_at := Some 5,
       thread := Some \<lparr> w_at = AtWrite \<lparr>states = Map.empty(4 \<mapsto> 1)\<rparr>,
                     w_log = \<lparr>cfg = \<lparr>path = lit ''pin_samples.ndjson'', flush_every = 1\<rparr>,
                              fh = True, count_since_flush = 0\<rparr>,
                     w_mon = \<lparr>mon_port = lit ''COM3'', mon_baud = 115200,
                              ser = Some \<lparr>is_open = True\<rparr>\<rparr> \<rparr>\<rparr>) =
   (loop_state (f @ [Wrote (sample_line (quiet_env 6 clock1 (Inr []))
                         \<lparr>states = Map.empty(4 \<mapsto> 1)\<rparr> None), Flushed]))
    \<lparr> last_states := Some \<lparr>states = Map.empty(4 \<mapsto> 1)\<rparr>,
       last_sample_at := Some 5, samples_written := 1\<rparr>"
  by (simp add: loop_state_def worker_step_def write_sample_def Let_def quiet_env_def
      main_cfg_def)

lemma main_after_sample:
  "run_worker ascii_rt
     [quiet_env 1 clock1 (Inr []), quiet_env 1 clock1 (Inr []), quiet_env 1 clock1 (Inr []),
      quiet_env 5 clock1 (Inr (lit ''4,1'' @ [10])), quiet_env 6 clock1 (Inr [])]
     (start (PinLoggingService main_cfg [])) =
   (loop_state [Wrote (sample_line (quiet_env 6 clock1 (Inr []))
                         \<lparr>states = Map.empty(4 \<mapsto> 1)\<rparr> None), Flushed])
    \<lparr> last_states := Some \<lparr>states = Map.empty(4 \<mapsto> 1)\<rparr>,
       last_sample_at := Some 5, samples_written := 1\<rparr>"
proof -
  have "run_worker ascii_rt
     ([quiet_env 1 clock1 (Inr []), quiet_env 1 clock1 (Inr []), quiet_env 1 clock1 (Inr [])] @
      [quiet_env 5 clock1 (Inr (lit ''4,1'' @ [10])), quiet_env 6 clock1 (Inr [])])
     (start (PinLoggingService main_cfg [])) =
     run_worker ascii_rt
      [quiet_env 5 clock1 (Inr (lit ''4,1'' @ [10])), quiet_env 6 clock1 (Inr [])]
      (loop_state [])"
    unfolding run_worker_append main_reaches_loop ..
  also have "\<dots> = worker_step ascii_rt (quiet_env 6 clock1 (Inr []))
      (worker_step ascii_rt (quiet_env 5 clock1 (Inr (lit ''4,1'' @ [10]))) (loop_state []))"
    by (simp only: run_worker.simps)
  also have "\<dots> = (loop_state ([] @ [Wrote (sample_line (quiet_env 6 clock1 (Inr []))
                         \<lparr>states = Map.empty(4 \<mapsto> 1)\<rparr> None), Flushed]))
    \<lparr> last_states := Some \<lparr>states = Map.empty(4 \<mapsto> 1)\<rparr>,
       last_sample_at := Some 5, samples_written := 1\<rparr>"
    unfolding loop_reads_41 loop_writes_41 ..
  finally show ?thesis by (simp only: append.simps)
qed

theorem status_snapshot_consistent_witness:
  "reachable ascii_rt main_cfg []
     (run_worker ascii_rt
       [quiet_env 1 clock1 (Inr []), quiet_env 1 clock1 (Inr []), quiet_env 1 clock1 (Inr []),
        quiet_env 5 clock1 (Inr (lit ''4,1'' @ [10])), quiet_env 6 clock1 (Inr [])]
       (start (PinLoggingService main_cfg [])))
   \<and> st_samples_written (get_status 9
       (run_worker ascii_rt
         [quiet_env 1 clock1 (Inr []), quiet_env 1 clock1 (Inr []), quiet_env 1 clock1 (Inr []),
          quiet_env 5 clock1 (Inr (lit ''4,1'' @ [10])), quiet_env 6 clock1 (Inr [])]
         (start (PinLoggingService main_cfg [])))) = 1
   \<and> st_d4 (get_status 9
       (run_worker ascii_rt
         [quiet_env 1 clock1 (Inr []), quiet_env 1 clock1 (Inr []), quiet_env 1 clock1 (Inr []),
          quiet_env 5 clock1 (Inr (lit ''4,1'' @ [10])), quiet_env 6 clock1 (Inr [])]
         (start (PinLoggingService main_cfg [])))) = Some 1
   \<and> st_last_sample_age_s (get_status 9
       (run_worker ascii_rt
         [quiet_env 1 clock1 (Inr []), quiet_env 1 clock1 (Inr []), quiet_env 1 clock1 (Inr []),
          quiet_env 5 clock1 (Inr (lit ''4,1'' @ [10])), quiet_env 6 clock1 (Inr [])]
         (start (PinLoggingService main_cfg [])))) = Some 4"
proof -
  define s where "s = run_worker ascii_rt
         [quiet_env 1 clock1 (Inr []), quiet_env 1 clock1 (Inr []), quiet_env 1 clock1 (Inr []),
          quiet_env 5 clock1 (Inr (lit ''4,1'' @ [10])), quiet_env 6 clock1 (Inr [])]
         (start (PinLoggingService main_cfg []))"
  have r: "reachable ascii_rt main_cfg [] s"
    unfolding s_def by (rule reachable_run_worker) (rule reachable_start)
  have n: "samples_written s = 1"
    unfolding s_def main_after_sample by simp
  have l: "last_states s = Some \<lparr>states = Map.empty(4 \<mapsto> 1)\<rparr>"
    unfolding s_def main_after_sample by simp
  have t: "last_sample_at s = Some 5"
    unfolding s_def main_after_sample by simp
  note T = status_snapshot_consistent [OF r, of 9]
  from T have "st_samples_written (get_status 9 s) = samples_written s" by blast
  then have c: "st_samples_written (get_status 9 s) = 1" unfolding n .
  then have "1 \<le> st_samples_written (get_status 9 s)" by simp
  with T obtain l0 t0 where o:
    "last_states s = Some l0" "last_sample_at s = Some t0"
    "st_d4 (get_status 9 s) = d4 l0"
    "st_last_sample_age_s (get_status 9 s) = (if t0 = 0 then None else Some (9 - t0))"
    by blast
  have l0: "l0 = \<lparr>states = Map.empty(4 \<mapsto> 1)\<rparr>" using o(1) l by simp
  have t0: "t0 = 5" using o(2) t by simp
  have d: "st_d4 (get_status 9 s) = Some 1" unfolding o(3) l0 by (simp add: d4_def)
  have a: "st_last_sample_age_s (get_status 9 s) = Some 4" unfolding o(4) t0 by simp
  from r c d a show ?thesis unfolding s_def by blast
qed

lemma run_worker_no_thread_or_done:
  "is_running s = False \<Longrightarrow> run_worker rt es s = s"
proof (induction es)
  case Nil
  show ?case by simp
next
  case (Cons e es)
  have "worker_step rt e s = s"
    using Cons.prems
    by (cases "thread s") (simp_all add: is_running_def worker_step_no_thread worker_step_Done)
  then show ?case using Cons by simp
qed

lemma start_fresh:
  "start (PinLoggingService c f) =
   (PinLoggingService c f)\<lparr>
      thread := Some \<lparr> w_at = AtInit,
                       w_log = \<lparr>cfg = \<lparr>path = json_path c, flush_every = svc_flush_every c\<rparr>,
                                fh = False, count_since_flush = 0\<rparr>,
                       w_mon = \<lparr>mon_port = port c, mon_baud = baud c, ser = None\<rparr> \<rparr>,
      spawned := 1 \<rparr>"
  by (simp add: start_def PinLoggingService_def is_running_def PinSampleJSONLogger_def
      ArduinoPinMonitor_def)

lemma serial_failure_run:
  assumes "open_log_err e2 = None" "open_ser_err e3 = Some msg"
  shows "run_worker rt [e1, e2, e3, e4, e5] (start (PinLoggingService c f)) =
   (PinLoggingService c f)\<lparr>
      thread := Some \<lparr> w_at = Done,
                       w_log = \<lparr>cfg = \<lparr>path = json_path c, flush_every = svc_flush_every c\<rparr>,
                                fh = False, count_since_flush = 0\<rparr>,
                       w_mon = \<lparr>mon_port = port c, mon_baud = baud c, ser = None\<rparr> \<rparr>,
      started_at := Some (time_now e1),
      last_error := Some (lit ''fatal: '' @ msg),
      logfile := snd (snd (log_close e5
                   (\<lparr>cfg = \<lparr>path = json_path c, flush_every = svc_flush_every c\<rparr>,
                     fh = True, count_since_flush = 0\<rparr>, f))),
      spawned := 1 \<rparr>"
  unfolding start_fresh using assms
  by (simp add: worker_step_def PinLoggingService_def log_open_def mon_open_def
      mon_is_open_def set_error_def log_close_def split: option.splits)

text \<open>
  C8. A new service is started and the log opens, but \<open>serial.Serial(...)\<close> raises with
  message \<open>msg\<close>. After the five steps of the worker (the locked start block, opening
  the log, the failed open, the handler, the \<open>finally\<close> block) the worker has returned:
  the thread is not alive and further steps change nothing, so nothing is retried; the
  last error is \<open>fatal: msg\<close>, which is not empty; \<open>_running\<close> is cleared; the logger's
  handle is released (flushed and closed when those calls succeed) and the monitor holds
  no port; closing either again does nothing; no sample or bad read was counted.
\<close>

theorem serial_open_failure_terminates:
  "open_log_err e2 = None \<and> open_ser_err e3 = Some msg \<longrightarrow>
     (let S = run_worker rt [e1, e2, e3, e4, e5] (start (PinLoggingService c f)) in
        (\<exists>w. thread S = Some w \<and> w_at w = Done \<and> \<not> fh (w_log w) \<and> ser (w_mon w) = None \<and>
             log_close e (w_log w, logfile S) = (None, w_log w, logfile S) \<and>
             mon_close x (w_mon w) = (None, w_mon w))
        \<and> \<not> is_running S \<and> \<not> running S \<and> \<not> st_running (get_status now S)
        \<and> last_error S = Some (lit ''fatal: '' @ msg)
        \<and> (\<exists>m. st_last_error (get_status now S) = Some m \<and> m \<noteq> [])
        \<and> samples_written S = 0 \<and> bad_reads S = 0
        \<and> (\<forall>es. run_worker rt es S = S)
        \<and> (flush_err e5 = None \<and> close_log_err e5 = None \<longrightarrow> logfile S = f @ [Flushed, Closed]))"
proof
  assume a: "open_log_err e2 = None \<and> open_ser_err e3 = Some msg"
  define S where "S = run_worker rt [e1, e2, e3, e4, e5] (start (PinLoggingService c f))"
  define w where "w = \<lparr> w_at = Done,
                       w_log = \<lparr>cfg = \<lparr>path = json_path c, flush_every = svc_flush_every c\<rparr>,
                                fh = False, count_since_flush = 0\<rparr>,
                       w_mon = \<lparr>mon_port = port c, mon_baud = baud c, ser = None\<rparr> \<rparr>"
  have S: "S = (PinLoggingService c f)\<lparr>
      thread := Some w,
      started_at := Some (time_now e1),
      last_error := Some (lit ''fatal: '' @ msg),
      logfile := snd (snd (log_close e5
                   (\<lparr>cfg = \<lparr>path = json_path c, flush_every = svc_flush_every c\<rparr>,
                     fh = True, count_since_flush = 0\<rparr>, f))),
      spawned := 1 \<rparr>"
    unfolding S_def w_def
    by (rule serial_failure_run [OF conjunct1 [OF a] conjunct2 [OF a]])
  have t: "thread S = Some w" unfolding S by simp
  have w1: "w_at w = Done" "\<not> fh (w_log w)" "ser (w_mon w) = None"
    by (simp_all add: w_def)
  have w2: "log_close e (w_log w, logfile S) = (None, w_log w, logfile S)"
    using w1(2) by (simp add: log_close_def)
  have w3: "mon_close x (w_mon w) = (None, w_mon w)"
    using w1(3) by (simp add: mon_close_def)
  have nr: "\<not> is_running S" using t w1(1) by (simp add: is_running_def)
  have 1: "\<exists>w. thread S = Some w \<and> w_at w = Done \<and> \<not> fh (w_log w) \<and> ser (w_mon w) = None \<and>
             log_close e (w_log w, logfile S) = (None, w_log w, logfile S) \<and>
             mon_close x (w_mon w) = (None, w_mon w)"
    using t w1 w2 w3 by blast
  have 2: "\<not> running S" unfolding S by (simp add: PinLoggingService_def)
  have 3: "\<not> st_running (get_status now S)" using nr by (simp add: get_status_def)
  have 4: "last_error S = Some (lit ''fatal: '' @ msg)" unfolding S by simp
  have 5: "\<exists>m. st_last_error (get_status now S) = Some m \<and> m \<noteq> []"
    using 4 by (simp add: get_status_def)
  have 6: "samples_written S = 0" "bad_reads S = 0"
    unfolding S by (simp_all add: PinLoggingService_def)
  have 7: "\<forall>es. run_worker rt es S = S"
    using nr run_worker_no_thread_or_done [of S rt] by simp
  have 8: "flush_err e5 = None \<and> close_log_err e5 = None \<longrightarrow> logfile S = f @ [Flushed, Closed]"
    unfolding S by (simp add: log_close_def)
  show "let S = run_worker rt [e1, e2, e3, e4, e5] (start (PinLoggingService c f)) in
        (\<exists>w. thread S = Some w \<and> w_at w = Done \<and> \<not> fh (w_log w) \<and> ser (w_mon w) = None \<and>
             log_close e (w_log w, logfile S) = (None, w_log w, logfile S) \<and>
             mon_close x (w_mon w) = (None, w_mon w))
        \<and> \<not> is_running S \<and> \<not> running S \<and> \<not> st_running (get_status now S)
        \<and> last_error S = Some (lit ''fatal: '' @ msg)
        \<and> (\<exists>m. st_last_error (get_status now S) = Some m \<and> m \<noteq> [])
        \<and> samples_written S = 0 \<and> bad_reads S = 0
        \<and> (\<forall>es. run_worker rt es S = S)
        \<and> (flush_err e5 = None \<and> close_log_err e5 = None \<longrightarrow> logfile S = f @ [Flushed, Closed])"
    unfolding Let_def S_def [symmetric] using 1 nr 2 3 4 5 6 7 8 by blast
qed

theorem serial_open_failure_terminates_witness:
  "last_error
     (run_worker ascii_rt
        [quiet_env 1 clock1 (Inr []), quiet_env 1 clock1 (Inr []),
         (quiet_env 1 clock1 (Inr []))\<lparr>open_ser_err := Some (lit ''no port'')\<rparr>,
         quiet_env 1 clock1 (Inr []), quiet_env 1 clock1 (Inr [])]
        (start (PinLoggingService main_cfg []))) = Some (lit ''fatal: no port'')
   \<and> \<not> is_running
     (run_worker ascii_rt
        [quiet_env 1 clock1 (Inr []), quiet_env 1 clock1 (Inr []),
         (quiet_env 1 clock1 (Inr []))\<lparr>open_ser_err := Some (lit ''no port'')\<rparr>,
         quiet_env 1 clock1 (Inr []), quiet_env 1 clock1 (Inr [])]
        (start (PinLoggingService main_cfg [])))
   \<and> \<not> running
     (run_worker ascii_rt
        [quiet_env 1 clock1 (Inr []), quiet_env 1 clock1 (Inr []),
         (quiet_env 1 clock1 (Inr []))\<lparr>open_ser_err := Some (lit ''no port'')\<rparr>,
         quiet_env 1 clock1 (Inr []), quiet_env 1 clock1 (Inr [])]
        (start (PinLoggingService main_cfg [])))
   \<and> logfile
     (run_worker ascii_rt
        [quiet_env 1 clock1 (Inr []), quiet_env 1 clock1 (Inr []),
         (quiet_env 1 clock1 (Inr []))\<lparr>open_ser_err := Some (lit ''no port'')\<rparr>,
         quiet_env 1 clock1 (Inr []), quiet_env 1 clock1 (Inr [])]
        (start (PinLoggingService main_cfg []))) = [Flushed, Closed]"
proof -
  define e where "e = quiet_env 1 clock1 (Inr [])"
  define e3 where "e3 = e\<lparr>open_ser_err := Some (lit ''no port'')\<rparr>"
  define S where "S = run_worker ascii_rt [e, e, e3, e, e] (start (PinLoggingService main_cfg []))"
  have h: "open_log_err e = None \<and> open_ser_err e3 = Some (lit ''no port'')"
    by (simp add: e_def e3_def quiet_env_def)
  have h5: "flush_err e = None \<and> close_log_err e = None"
    by (simp add: e_def quiet_env_def)
  note T = serial_open_failure_terminates [of e e3 "lit ''no port''" ascii_rt e e e main_cfg "[]",
      unfolded Let_def, folded S_def]
  from T h have 1: "last_error S = Some (lit ''fatal: '' @ lit ''no port'')" by blast
  from T h have 2: "\<not> is_running S" by blast
  from T h have 3: "\<not> running S" by blast
  from T h h5 have 4: "logfile S = [] @ [Flushed, Closed]" by blast
  from 1 2 3 4 show ?thesis unfolding S_def e3_def e_def by simp
qed

text \<open>
  C9. On a service that was never started, \<open>stop()\<close> leaves the status snapshot, the
  counters, the log file and the number of workers as they were, the service is still not
  running, and a later \<open>start()\<close> gives the same state as without the \<open>stop()\<close>. When a
  worker is alive, \<open>start()\<close> changes nothing; when none is alive, it starts one worker,
  and a second \<open>start()\<close> right after it starts no other.
\<close>

theorem stop_noop_start_idempotent:
  "get_status now (stop (PinLoggingService c f)) = get_status now (PinLoggingService c f)
   \<and> \<not> is_running (stop (PinLoggingService c f))
   \<and> \<not> running (stop (PinLoggingService c f))
   \<and> samples_written (stop (PinLoggingService c f)) = 0
   \<and> bad_reads (stop (PinLoggingService c f)) = 0
   \<and> logfile (stop (PinLoggingService c f)) = f
   \<and> spawned (stop (PinLoggingService c f)) = 0
   \<and> start (stop (PinLoggingService c f)) = start (PinLoggingService c f)
   \<and> (thread s = None \<longrightarrow>
        get_status now (stop s) = get_status now s \<and> samples_written (stop s) = samples_written s \<and>
        bad_reads (stop s) = bad_reads s \<and> \<not> is_running (stop s) \<and>
        (\<not> running s \<longrightarrow> start (stop s) = start s))
   \<and> (is_running s \<longrightarrow> start s = s)
   \<and> (\<not> is_running s \<longrightarrow>
        is_running (start s) \<and> spawned (start s) = spawned s + 1 \<and>
        start (start s) = start s \<and> spawned (start (start s)) = spawned s + 1)
   \<and> spawned (start (start (PinLoggingService c f))) = 1"
proof -
  have a: "\<not> is_running s \<Longrightarrow> is_running (start s)" for s
    by (simp add: start_def is_running_def)
  have b: "is_running s \<Longrightarrow> start s = s" for s
    by (simp add: start_def)
  have c: "\<not> is_running s \<Longrightarrow> spawned (start s) = spawned s + 1" for s
    by (simp add: start_def)
  have d: "\<not> is_running s \<Longrightarrow> start (start s) = start s" for s
    using a [of s] b [of "start s"] by simp
  have n: "\<not> is_running (PinLoggingService c f)"
    by (simp add: is_running_def PinLoggingService_def)
  have e: "thread s = None \<Longrightarrow> \<not> running s \<Longrightarrow> start (stop s) = start s"
    by (simp add: start_def stop_def stop_signal_def stop_finish_def is_running_def)
  have g: "thread s = None \<Longrightarrow> get_status now (stop s) = get_status now s"
    by (simp add: get_status_def stop_def stop_signal_def stop_finish_def is_running_def)
  have 1: "get_status now (stop (PinLoggingService c f)) = get_status now (PinLoggingService c f)"
    by (simp add: get_status_def stop_def stop_signal_def stop_finish_def is_running_def
        PinLoggingService_def)
  have 2: "\<not> is_running (stop (PinLoggingService c f))"
    "\<not> running (stop (PinLoggingService c f))"
    "samples_written (stop (PinLoggingService c f)) = 0"
    "bad_reads (stop (PinLoggingService c f)) = 0"
    "logfile (stop (PinLoggingService c f)) = f"
    "spawned (stop (PinLoggingService c f)) = 0"
    by (simp_all add: stop_def stop_signal_def stop_finish_def is_running_def
        PinLoggingService_def)
  have 3: "start (stop (PinLoggingService c f)) = start (PinLoggingService c f)"
    by (simp add: start_def stop_def stop_signal_def stop_finish_def is_running_def
        PinLoggingService_def)
  have 4: "thread s = None \<longrightarrow>
        get_status now (stop s) = get_status now s \<and> samples_written (stop s) = samples_written s \<and>
        bad_reads (stop s) = bad_reads s \<and> \<not> is_running (stop s) \<and>
        (\<not> running s \<longrightarrow> start (stop s) = start s)"
    using e g by (simp add: stop_def stop_signal_def stop_finish_def is_running_def)
  have 5: "is_running s \<longrightarrow> start s = s" using b by blast
  have 6: "\<not> is_running s \<longrightarrow>
        is_running (start s) \<and> spawned (start s) = spawned s + 1 \<and>
        start (start s) = start s \<and> spawned (start (start s)) = spawned s + 1"
    using a [of s] c [of s] d [of s] by simp
  have 7: "spawned (start (start (PinLoggingService c f))) = 1"
    using d [OF n] c [OF n] by (simp add: PinLoggingService_def)
  show ?thesis using 1 2 3 4 5 6 7 by blast
qed

theorem stop_noop_start_idempotent_witness:
  "thread (PinLoggingService main_cfg []) = None
   \<and> get_status 3 (stop (PinLoggingService main_cfg [])) =
       get_status 3 (PinLoggingService main_cfg [])
   \<and> is_running (loop_state []) \<and> start (loop_state []) = loop_state []
   \<and> \<not> is_running (PinLoggingService main_cfg [])
   \<and> spawned (start (start (PinLoggingService main_cfg []))) = 1"
proof -
  have t: "thread (PinLoggingService main_cfg []) = None"
    by (simp add: PinLoggingService_def)
  have r: "is_running (loop_state [])" by (simp add: is_running_def loop_state_def)
  have n: "\<not> is_running (PinLoggingService main_cfg [])"
    by (simp add: is_running_def PinLoggingService_def)
  from stop_noop_start_idempotent [of 3 main_cfg "[]" "PinLoggingService main_cfg []"] t
  have 1: "get_status 3 (stop (PinLoggingService main_cfg [])) =
           get_status 3 (PinLoggingService main_cfg [])" by blast
  from stop_noop_start_idempotent [of 3 main_cfg "[]" "loop_state []"] r
  have 2: "start (loop_state []) = loop_state []" by blast
  from stop_noop_start_idempotent [of 3 main_cfg "[]" "PinLoggingService main_cfg []"] n
  have 3: "spawned (start (start (PinLoggingService main_cfg []))) =
           spawned (PinLoggingService main_cfg []) + 1" by blast
  then have 4: "spawned (start (start (PinLoggingService main_cfg []))) = 1"
    by (simp add: PinLoggingService_def)
  from t 1 r 2 n 4 show ?thesis by blast
qed

lemma parse_line_no_tokens: "parts line = [] \<Longrightarrow> parse_line rt line = Inr Map.empty"
  by (simp add: parse_line_def)

lemma read_states_no_tokens:
  assumes "mon_is_open m" "raw \<noteq> []" "strip (utf8_replace rt raw) \<noteq> []"
    "parts (strip (utf8_replace rt raw)) = []"
  shows "read_states rt m (Inr raw) = Inr (Some \<lparr>states = Map.empty\<rparr>)"
  using assms parse_line_no_tokens [OF assms(4), of rt]
  by (simp add: read_states_def Let_def)

lemma sample_line_empty:
  \<open>sample_line e \<lparr>states = Map.empty\<rparr> None =
     lit ''{"ts_utc":"'' @ now_iso_utc (utc_now e) @
     lit ''","d4":null,"d5":null,"d6":null,"d7":null}'' @ [10]\<close>
proof -
  have q: "json_quote (now_iso_utc (utc_now e)) = [34] @ now_iso_utc (utc_now e) @ [34]"
    using json_quote_plain [of "now_iso_utc (utc_now e)"] now_iso_utc_plain [of _ "utc_now e"]
    by blast
  show ?thesis
    unfolding sample_line_text pin_field_text
    by (simp add: stamp_def q d4_def d5_def d6_def d7_def)
qed

text \<open>
  C10. The worker stands at the loop test with the port and the log open and no stop
  requested, and reads a line that is not empty after trimming but has no non-empty
  token between its commas. Then \<open>read_states\<close> returns a sample with the empty mapping,
  not no-data; and after this step and the next, whose write does not raise, the bad-read
  count is unchanged, the samples-written count is one higher, the cache holds the empty
  sample, and the log has received the record whose four pin fields are \<open>null\<close>.
\<close>

theorem empty_sample_is_logged:
  \<open>thread s = Some w \<and> w_at w = AtLoop \<and> \<not> stop_ev s \<and> mon_is_open (w_mon w) \<and>
   fh (w_log w) \<and> readline e1 = Inr raw \<and> raw \<noteq> [] \<and>
   strip (utf8_replace rt raw) \<noteq> [] \<and> parts (strip (utf8_replace rt raw)) = [] \<and>
   write_err e2 = None \<and> flush_err e2 = None \<longrightarrow>
     read_states rt (w_mon w) (readline e1) = Inr (Some \<lparr>states = Map.empty\<rparr>)
     \<and> bad_reads (run_worker rt [e1, e2] s) = bad_reads s
     \<and> samples_written (run_worker rt [e1, e2] s) = samples_written s + 1
     \<and> last_states (run_worker rt [e1, e2] s) = Some \<lparr>states = Map.empty\<rparr>
     \<and> (\<exists>tl. logfile (run_worker rt [e1, e2] s) =
              logfile s @
              Wrote (lit ''{"ts_utc":"'' @ now_iso_utc (utc_now e2) @
                     lit ''","d4":null,"d5":null,"d6":null,"d7":null}'' @ [10]) # tl
              \<and> (tl = [] \<or> tl = [Flushed]))\<close>
proof
  assume a: \<open>thread s = Some w \<and> w_at w = AtLoop \<and> \<not> stop_ev s \<and> mon_is_open (w_mon w) \<and>
   fh (w_log w) \<and> readline e1 = Inr raw \<and> raw \<noteq> [] \<and>
   strip (utf8_replace rt raw) \<noteq> [] \<and> parts (strip (utf8_replace rt raw)) = [] \<and>
   write_err e2 = None \<and> flush_err e2 = None\<close>
  then have T: "thread s = Some w" and L: "w_at w = AtLoop" and ns: "\<not> stop_ev s"
    and mo: "mon_is_open (w_mon w)" and lo: "fh (w_log w)" and rl: "readline e1 = Inr raw"
    and we: "write_err e2 = None" and fe: "flush_err e2 = None"
    by blast+
  have rs: "read_states rt (w_mon w) (readline e1) = Inr (Some \<lparr>states = Map.empty\<rparr>)"
    unfolding rl using a by (intro read_states_no_tokens) blast+
  define s1 where "s1 = s\<lparr> last_states := Some \<lparr>states = Map.empty\<rparr>,
                           last_sample_at := Some (time_now e1),
                           thread := Some (w\<lparr>w_at := AtWrite \<lparr>states = Map.empty\<rparr>\<rparr>) \<rparr>"
  have st1: "worker_step rt e1 s = s1"
    unfolding worker_step_AtLoop_read [OF T L ns] rs s1_def by simp
  have T1: "thread s1 = Some (w\<lparr>w_at := AtWrite \<lparr>states = Map.empty\<rparr>\<rparr>)"
    by (simp add: s1_def)
  have W1: "w_at (w\<lparr>w_at := AtWrite \<lparr>states = Map.empty\<rparr>\<rparr>) = AtWrite \<lparr>states = Map.empty\<rparr>"
    by simp
  have lo1: "fh (w_log (w\<lparr>w_at := AtWrite \<lparr>states = Map.empty\<rparr>\<rparr>))" using lo by simp
  obtain l' tl where ws: "write_sample e2 \<lparr>states = Map.empty\<rparr> None
       (w_log (w\<lparr>w_at := AtWrite \<lparr>states = Map.empty\<rparr>\<rparr>), logfile s1) =
       (None, l', logfile s1 @ Wrote (sample_line e2 \<lparr>states = Map.empty\<rparr> None) # tl)"
    and tl: "tl = [] \<or> tl = [Flushed]"
    unfolding write_sample_ok [OF lo1 fe we] by (cases "0 < flush_every (cfg (w_log w)) \<and>
        flush_every (cfg (w_log w)) \<le> count_since_flush (w_log w) + 1") simp_all
  define s2 where "s2 = worker_step rt e2 s1"
  have st2: "s2 = s1\<lparr> samples_written := samples_written s1 + 1,
                      logfile := logfile s1 @ Wrote (sample_line e2 \<lparr>states = Map.empty\<rparr> None) # tl,
                      thread := Some (w\<lparr>w_at := AtWrite \<lparr>states = Map.empty\<rparr>\<rparr>
                                       \<lparr>w_log := l', w_at := AtLoop\<rparr>) \<rparr>"
    unfolding s2_def worker_step_AtWrite [OF T1 W1] ws by simp
  have run: "run_worker rt [e1, e2] s = s2"
    unfolding s2_def st1 [symmetric] by simp
  have 1: "bad_reads s2 = bad_reads s" unfolding st2 by (simp add: s1_def)
  have 2: "samples_written s2 = samples_written s + 1" unfolding st2 by (simp add: s1_def)
  have 3: "last_states s2 = Some \<lparr>states = Map.empty\<rparr>" unfolding st2 by (simp add: s1_def)
  have 4: "logfile s2 = logfile s @ Wrote (sample_line e2 \<lparr>states = Map.empty\<rparr> None) # tl"
    unfolding st2 by (simp add: s1_def)
  show \<open>read_states rt (w_mon w) (readline e1) = Inr (Some \<lparr>states = Map.empty\<rparr>)
     \<and> bad_reads (run_worker rt [e1, e2] s) = bad_reads s
     \<and> samples_written (run_worker rt [e1, e2] s) = samples_written s + 1
     \<and> last_states (run_worker rt [e1, e2] s) = Some \<lparr>states = Map.empty\<rparr>
     \<and> (\<exists>tl. logfile (run_worker rt [e1, e2] s) =
              logfile s @
              Wrote (lit ''{"ts_utc":"'' @ now_iso_utc (utc_now e2) @
                     lit ''","d4":null,"d5":null,"d6":null,"d7":null}'' @ [10]) # tl
              \<and> (tl = [] \<or> tl = [Flushed]))\<close>
    unfolding run using rs 1 2 3 4 tl unfolding sample_line_empty by blast
qed

lemma now_iso_clock1: "now_iso_utc clock1 = lit ''2026-01-13T04:32:10.123456Z''"
  by (simp add: now_iso_utc_shape clock1_def zpad_def dec_digits.simps)

theorem empty_sample_is_logged_witness:
  \<open>read_states ascii_rt
      \<lparr>mon_port = lit ''COM3'', mon_baud = 115200, ser = Some \<lparr>is_open = True\<rparr>\<rparr>
      (Inr (lit '',,,'' @ [10])) = Inr (Some \<lparr>states = Map.empty\<rparr>)
   \<and> samples_written
       (run_worker ascii_rt
          [quiet_env 5 clock1 (Inr (lit '',,,'' @ [10])), quiet_env 6 clock1 (Inr [])]
          (loop_state [])) = 1
   \<and> bad_reads
       (run_worker ascii_rt
          [quiet_env 5 clock1 (Inr (lit '',,,'' @ [10])), quiet_env 6 clock1 (Inr [])]
          (loop_state [])) = 0
   \<and> (\<exists>tl. logfile
       (run_worker ascii_rt
          [quiet_env 5 clock1 (Inr (lit '',,,'' @ [10])), quiet_env 6 clock1 (Inr [])]
          (loop_state [])) =
       Wrote (lit ''{"ts_utc":"2026-01-13T04:32:10.123456Z","d4":null,"d5":null,"d6":null,"d7":null}''
              @ [10]) # tl)\<close>
proof -
  define raw where "raw = lit '',,,'' @ [10]"
  define e1 where "e1 = quiet_env 5 clock1 (Inr raw)"
  define e2 where "e2 = quiet_env 6 clock1 (Inr [])"
  define w where "w = \<lparr> w_at = AtLoop,
                     w_log = \<lparr>cfg = \<lparr>path = lit ''pin_samples.ndjson'', flush_every = 1\<rparr>,
                              fh = True, count_since_flush = 0\<rparr>,
                     w_mon = \<lparr>mon_port = lit ''COM3'', mon_baud = 115200,
                              ser = Some \<lparr>is_open = True\<rparr>\<rparr> \<rparr>"
  define S where "S = run_worker ascii_rt [e1, e2] (loop_state [])"
  have dec: "utf8_replace ascii_rt raw = raw" by (simp add: raw_def ascii_rt_def)
  have st: "strip raw = lit '',,,''" by (simp add: raw_def strip_def py_isspace_def)
  have pa: "parts (lit '',,,'') = []" by (simp add: parts_def strip_def)
  have h: "thread (loop_state []) = Some w \<and> w_at w = AtLoop \<and> \<not> stop_ev (loop_state []) \<and>
     mon_is_open (w_mon w) \<and> fh (w_log w) \<and> readline e1 = Inr raw \<and> raw \<noteq> [] \<and>
     strip (utf8_replace ascii_rt raw) \<noteq> [] \<and> parts (strip (utf8_replace ascii_rt raw)) = [] \<and>
     write_err e2 = None \<and> flush_err e2 = None"
    unfolding dec st pa
    by (simp add: loop_state_def w_def mon_is_open_def e1_def e2_def quiet_env_def raw_def)
  have u: "utc_now e2 = clock1" by (simp add: e2_def quiet_env_def)
  have rl: "readline e1 = Inr raw" by (simp add: e1_def quiet_env_def)
  have wm: "w_mon w = \<lparr>mon_port = lit ''COM3'', mon_baud = 115200, ser = Some \<lparr>is_open = True\<rparr>\<rparr>"
    by (simp add: w_def)
  note T = empty_sample_is_logged [of "loop_state []" w e1 raw ascii_rt e2, THEN mp, OF h,
      folded S_def]
  from T have "read_states ascii_rt (w_mon w) (readline e1) = Inr (Some \<lparr>states = Map.empty\<rparr>)"
    by blast
  then have 1: "read_states ascii_rt
      \<lparr>mon_port = lit ''COM3'', mon_baud = 115200, ser = Some \<lparr>is_open = True\<rparr>\<rparr> (Inr raw) =
      Inr (Some \<lparr>states = Map.empty\<rparr>)" unfolding rl wm .
  from T have "samples_written S = samples_written (loop_state []) + 1" by blast
  then have 2: "samples_written S = 1" by (simp add: loop_state_def)
  from T have "bad_reads S = bad_reads (loop_state [])" by blast
  then have 3: "bad_reads S = 0" by (simp add: loop_state_def)
  from T obtain tl where \<open>logfile S = logfile (loop_state []) @
       Wrote (lit ''{"ts_utc":"'' @ now_iso_utc (utc_now e2) @
              lit ''","d4":null,"d5":null,"d6":null,"d7":null}'' @ [10]) # tl\<close> by blast
  then have 4: \<open>\<exists>tl. logfile S =
       Wrote (lit ''{"ts_utc":"2026-01-13T04:32:10.123456Z","d4":null,"d5":null,"d6":null,"d7":null}''
              @ [10]) # tl\<close>
    unfolding u now_iso_clock1 by (simp add: loop_state_def)
  from 1 2 3 4 show ?thesis unfolding S_def e1_def e2_def raw_def by blast
qed

end
